theory Spec2Isabelle
  imports Complex_Main
begin

section \<open>Values, errors and graphs\<close>

text \<open>
  Python numbers are modelled as exact rationals: \<open>int\<close> and \<open>float\<close> values are both
  \<open>rat\<close>, arithmetic is exact, and a division by zero raises \<open>ZeroDivisionError\<close> as
  Python's \<open>/\<close> does on ints and floats alike. Attribute dictionaries (the node data of a
  networkx graph and \<open>graph.graph\<close>) are maps from attribute names to values.
\<close>

datatype val = Num rat | Str string

type_synonym attrs = "string \<rightharpoonup> val"

text \<open>
  The message of an \<open>AssignmentError\<close> names the atoms without charges and ends in one of
  three sentences (or none): "Please retry with a smaller shell parameter.", the same "or a
  SimpleCharger.", or "Please retry with a SimpleCharger.". The error value carries the
  atoms and which ending was chosen. \<open>NotANumber\<close> is not a Python exception: it marks the
  one place (the mean of an empty list) where numpy yields NaN, a value the exact model of
  numbers does not have.
\<close>

datatype retry_hint = NoHint | SmallerShell | SmallerShellOrSimpleCharger | UseSimpleCharger

datatype error =
    KeyError string
  | TypeError string
  | ZeroDivisionError
  | ValueError
  | IndexError
  | NotANumber
  | AssignmentError "nat list" retry_hint

record graph =
  nodes :: "(nat \<times> attrs) list"
  edges :: "(nat \<times> nat) list"
  graph_attrs :: attrs

text \<open>
  A ChargeSet is a dictionary from shell size to a dictionary from canonical key to the list
  of observed charges. Both levels are association lists read with \<open>map_of\<close>; the keys of
  the outer level are listed by \<open>map fst\<close>.
\<close>

type_synonym 'k charge_set = "(int \<times> ('k \<times> rat list) list) list"

record 'k repository =
  charges_iacm :: "'k charge_set"
  charges_elem :: "'k charge_set"

section \<open>Chargers (chargers.py)\<close>

datatype collector_class = MeanCollector | HistogramCollector

datatype solver_class = SimpleSolver | ILPSolver | DPSolver | CDPSolver

record collector =
  collector_class :: collector_class
  collector_rounding_digits :: int

record solver =
  solver_class :: solver_class
  solver_args :: "int list"

record 'k charger =
  repo :: "'k repository"
  charger_rounding_digits :: int
  the_collector :: collector
  the_solver :: solver

text \<open>
  \<open>Charger.__init__\<close> clamps the rounding digits with
  \<open>min(max(rounding_digits, 0), MAX_ROUNDING_DIGITS)\<close>. The constant
  \<open>MAX_ROUNDING_DIGITS\<close> lives in \<open>charge.settings\<close>, which is not part of the sources at
  hand, so it is a parameter here.
\<close>

definition clamp_rounding_digits :: "int \<Rightarrow> int \<Rightarrow> int" where
  "clamp_rounding_digits MAX_ROUNDING_DIGITS rd = min (max rd 0) MAX_ROUNDING_DIGITS"

definition SimpleCharger :: "int \<Rightarrow> 'k repository \<Rightarrow> int \<Rightarrow> 'k charger" where
  "SimpleCharger MAX_ROUNDING_DIGITS repository rd =
     \<lparr> repo = repository,
       charger_rounding_digits = clamp_rounding_digits MAX_ROUNDING_DIGITS rd,
       the_collector = \<lparr> collector_class = MeanCollector, collector_rounding_digits = rd \<rparr>,
       the_solver = \<lparr> solver_class = SimpleSolver, solver_args = [rd] \<rparr> \<rparr>"

definition ILPCharger :: "int \<Rightarrow> 'k repository \<Rightarrow> int \<Rightarrow> int \<Rightarrow> 'k charger" where
  "ILPCharger MAX_ROUNDING_DIGITS repository rd max_seconds =
     \<lparr> repo = repository,
       charger_rounding_digits = clamp_rounding_digits MAX_ROUNDING_DIGITS rd,
       the_collector = \<lparr> collector_class = HistogramCollector, collector_rounding_digits = rd \<rparr>,
       the_solver = \<lparr> solver_class = ILPSolver, solver_args = [rd, max_seconds] \<rparr> \<rparr>"

definition DPCharger :: "int \<Rightarrow> 'k repository \<Rightarrow> int \<Rightarrow> int \<Rightarrow> 'k charger" where
  "DPCharger MAX_ROUNDING_DIGITS repository rd max_seconds =
     \<lparr> repo = repository,
       charger_rounding_digits = clamp_rounding_digits MAX_ROUNDING_DIGITS rd,
       the_collector = \<lparr> collector_class = HistogramCollector, collector_rounding_digits = rd \<rparr>,
       the_solver = \<lparr> solver_class = ILPSolver, solver_args = [rd, max_seconds] \<rparr> \<rparr>"

definition CDPCharger :: "int \<Rightarrow> 'k repository \<Rightarrow> int \<Rightarrow> int \<Rightarrow> 'k charger" where
  "CDPCharger MAX_ROUNDING_DIGITS repository rd max_seconds =
     \<lparr> repo = repository,
       charger_rounding_digits = clamp_rounding_digits MAX_ROUNDING_DIGITS rd,
       the_collector = \<lparr> collector_class = HistogramCollector, collector_rounding_digits = rd \<rparr>,
       the_solver = \<lparr> solver_class = ILPSolver, solver_args = [rd, max_seconds] \<rparr> \<rparr>"

subsection \<open>The shell argument of \<open>charge\<close>\<close>

text \<open>
  \<open>shell: Union[None, int, Iterable[int]]\<close>. The first test of \<open>charge\<close> is Python's
  truth test \<open>not shell\<close>: \<open>None\<close>, the integer \<open>0\<close> and an empty list are all falsy.
  The third test, \<open>isinstance(shell, Iterable[int])\<close>, is an instance check against a
  subscripted generic of \<open>typing\<close>, which raises \<open>TypeError\<close> whatever the value is.
\<close>

datatype shell_arg = ShellNone | ShellInt int | ShellIter "int list"

fun py_not :: "shell_arg \<Rightarrow> bool" where
  "py_not ShellNone = True"
| "py_not (ShellInt n) = (n = 0)"
| "py_not (ShellIter xs) = (xs = [])"

fun isinstance_int :: "shell_arg \<Rightarrow> bool" where
  "isinstance_int (ShellInt n) = True"
| "isinstance_int _ = False"

definition isinstance_Iterable_int :: "shell_arg \<Rightarrow> error + bool" where
  "isinstance_Iterable_int shell =
     Inl (TypeError ''Subscripted generics cannot be used with class and instance checks'')"

definition sorted_reverse :: "int list \<Rightarrow> int list" where
  "sorted_reverse ks = rev (sort ks)"

definition charge_shells :: "'k repository \<Rightarrow> shell_arg \<Rightarrow> error + int list" where
  "charge_shells repository shell =
     (if py_not shell then Inr (sorted_reverse (map fst (charges_iacm repository)))
      else if isinstance_int shell then
        (case shell of ShellInt n \<Rightarrow> Inr [n] | _ \<Rightarrow> Inl (TypeError ''unreachable''))
      else
        (case isinstance_Iterable_int shell of
           Inl e \<Rightarrow> Inl e
         | Inr True \<Rightarrow> (case shell of ShellIter xs \<Rightarrow> Inr xs | _ \<Rightarrow> Inl (TypeError ''unreachable''))
         | Inr False \<Rightarrow> Inl (TypeError ''shell must be int or List[int]'')))"


section \<open>Numbers\<close>

text \<open>
  \<open>round(x, d)\<close> rounds to \<open>d\<close> decimals, ties to the even neighbour; a negative \<open>d\<close> rounds
  to tens, hundreds and so on.
\<close>

definition pow10 :: "int \<Rightarrow> rat" where
  "pow10 d = (if 0 \<le> d then 10 ^ nat d else 1 / 10 ^ nat (- d))"

definition round_half_even :: "rat \<Rightarrow> int" where
  "round_half_even x =
     (let f = \<lfloor>x\<rfloor>; r = x - of_int f in
      if r < 1 / 2 then f else if 1 / 2 < r then f + 1 else if even f then f else f + 1)"

definition py_round :: "rat \<Rightarrow> int \<Rightarrow> rat" where
  "py_round x d = of_int (round_half_even (x * pow10 d)) / pow10 d"

fun py_min :: "rat list \<Rightarrow> error + rat" where
  "py_min [] = Inl ValueError"
| "py_min (x # xs) = Inr (fold min xs x)"

fun py_max :: "rat list \<Rightarrow> error + rat" where
  "py_max [] = Inl ValueError"
| "py_max (x # xs) = Inr (fold max xs x)"

definition get_num :: "attrs \<Rightarrow> string \<Rightarrow> error + rat" where
  "get_num data k =
     (case data k of
        None \<Rightarrow> Inl (KeyError k)
      | Some (Num x) \<Rightarrow> Inr x
      | Some (Str s) \<Rightarrow> Inl (TypeError k))"

section \<open>Histogram binning (collectors.py, \<open>__calculate_histogram\<close>)\<close>

text \<open>
  The local function \<open>round_to(x, grain, up)\<close> is \<open>ceil((x / grain) - 0.5) * grain\<close>; its
  third parameter does not occur in its body. It is only called with
  \<open>grain = 10**(-rounding_digits) * spacing\<close> and \<open>spacing \<ge> 1\<close>, a positive number.
\<close>

definition round_to :: "rat \<Rightarrow> rat \<Rightarrow> bool \<Rightarrow> rat" where
  "round_to x grain up = of_int \<lceil>x / grain - 1 / 2\<rceil> * grain"

text \<open>
  \<open>np.arange(start, stop, step)\<close> has \<open>ceil((stop - start) / step)\<close> elements
  \<open>start + i * step\<close>. \<open>np.histogram(a, bins=edges)\<close> wants increasing edges and counts the
  values of each half-open bin, the last bin being closed. \<open>np.nonzero\<close> lists the positions
  of the non-zero counts, and indexing an array by such a list picks those positions.
\<close>

definition np_arange :: "rat \<Rightarrow> rat \<Rightarrow> rat \<Rightarrow> rat list" where
  "np_arange start stop step =
     map (\<lambda>i. start + of_nat i * step) [0 ..< nat \<lceil>(stop - start) / step\<rceil>]"

fun bin_counts :: "rat list \<Rightarrow> rat list \<Rightarrow> nat list" where
  "bin_counts a (lo # hi # []) = [length (filter (\<lambda>x. lo \<le> x \<and> x \<le> hi) a)]"
| "bin_counts a (lo # hi # es) =
     length (filter (\<lambda>x. lo \<le> x \<and> x < hi) a) # bin_counts a (hi # es)"
| "bin_counts a es = []"

definition np_histogram :: "rat list \<Rightarrow> rat list \<Rightarrow> error + nat list" where
  "np_histogram a bins = (if sorted bins then Inr (bin_counts a bins) else Inl ValueError)"

definition np_count_nonzero :: "nat list \<Rightarrow> nat" where
  "np_count_nonzero counts = length (filter (\<lambda>c. c \<noteq> 0) counts)"

definition np_nonzero :: "nat list \<Rightarrow> nat list" where
  "np_nonzero counts = filter (\<lambda>i. counts ! i \<noteq> 0) [0 ..< length counts]"

definition np_take :: "'a list \<Rightarrow> nat list \<Rightarrow> error + 'a list" where
  "np_take xs idx =
     (if list_all (\<lambda>i. i < length xs) idx then Inr (map (\<lambda>i. xs ! i) idx) else Inl IndexError)"

definition add_to_last :: "rat list \<Rightarrow> rat \<Rightarrow> error + rat list" where
  "add_to_last xs e =
     (if xs = [] then Inl IndexError else Inr (xs[length xs - 1 := last xs + e]))"

text \<open>One pass of the \<open>while\<close> loop's body, for the bin width \<open>step\<close>.\<close>

definition min_charge_bin :: "rat \<Rightarrow> rat \<Rightarrow> rat" where
  "min_charge_bin min_charge step = round_to min_charge step False"

definition max_charge_bin :: "rat \<Rightarrow> rat \<Rightarrow> rat" where
  "max_charge_bin max_charge step = round_to max_charge step True"

definition histogram_pass :: "rat list \<Rightarrow> rat \<Rightarrow> error + (rat list \<times> nat list)" where
  "histogram_pass charges step =
     (case py_min charges of
        Inl e \<Rightarrow> Inl e
      | Inr min_charge \<Rightarrow>
         (case py_max charges of
            Inl e \<Rightarrow> Inl e
          | Inr max_charge \<Rightarrow>
             (let bin_centers =
                    np_arange (min_charge_bin min_charge step)
                      (max_charge_bin max_charge step + 1 / 2 * step) step;
                  min_bin_edge = min_charge_bin min_charge step - 1 / 2 * step;
                  max_bin_edge = max_charge_bin max_charge step + 1 / 2 * step
              in (case add_to_last (np_arange min_bin_edge (max_bin_edge + 1 / 2 * step) step)
                         (1 / 10 ^ 15) of
                    Inl e \<Rightarrow> Inl e
                  | Inr bin_edges \<Rightarrow>
                     (case np_histogram charges bin_edges of
                        Inl e \<Rightarrow> Inl e
                      | Inr counts \<Rightarrow> Inr (bin_centers, counts))))))"

text \<open>
  The loop \<open>while num_bins > max_bins\<close> starts with \<open>spacing = 0\<close> and
  \<open>num_bins = max_bins + 1\<close>, so its body runs at least once; each pass adds one to
  \<open>spacing\<close>. Nothing bounds the number of passes, so the loop is a partial function: the
  value \<open>None\<close> stands for a loop that never ends.
\<close>

partial_function (option) histogram_loop ::
  "rat list \<Rightarrow> int \<Rightarrow> rat \<Rightarrow> int \<Rightarrow> (error + (rat list \<times> nat list)) option" where
  "histogram_loop charges max_bins grain spacing =
     (case histogram_pass charges (grain * of_int (spacing + 1)) of
        Inl e \<Rightarrow> Some (Inl e)
      | Inr (bin_centers, counts) \<Rightarrow>
          (if int (np_count_nonzero counts) > max_bins
           then histogram_loop charges max_bins grain (spacing + 1)
           else Some (Inr (bin_centers, counts))))"

declare histogram_loop.simps [code]

definition calculate_histogram ::
  "int \<Rightarrow> rat list \<Rightarrow> int \<Rightarrow> (error + (rat list \<times> nat list)) option" where
  "calculate_histogram rounding_digits charges max_bins =
     (case histogram_loop charges max_bins (pow10 (- rounding_digits)) 0 of
        None \<Rightarrow> None
      | Some (Inl e) \<Rightarrow> Some (Inl e)
      | Some (Inr (bin_centers, counts)) \<Rightarrow>
          (let nonzero_bins = np_nonzero counts in
           (case np_take counts nonzero_bins of
              Inl e \<Rightarrow> Some (Inl e)
            | Inr counts' \<Rightarrow>
               (case np_take bin_centers nonzero_bins of
                  Inl e \<Rightarrow> Some (Inl e)
                | Inr bin_centers' \<Rightarrow> Some (Inr (bin_centers', counts'))))))"

text \<open>
  The two rounding rules of the specification's histogram section, in its own words: the
  nearest multiple of \<open>step\<close>, a tie going to the lower multiple, and the nearest multiple,
  a tie going to the upper one. They are compared with \<open>round_to\<close> below.
\<close>

definition nearest_multiple_ties_down :: "rat \<Rightarrow> rat \<Rightarrow> rat" where
  "nearest_multiple_ties_down x step =
     (let k = \<lfloor>x / step\<rfloor>; r = x / step - of_int k in
      if r \<le> 1 / 2 then of_int k * step else of_int (k + 1) * step)"

definition nearest_multiple_ties_up :: "rat \<Rightarrow> rat \<Rightarrow> rat" where
  "nearest_multiple_ties_up x step =
     (let k = \<lfloor>x / step\<rfloor>; r = x / step - of_int k in
      if r < 1 / 2 then of_int k * step else of_int (k + 1) * step)"

section \<open>Collectors (collectors.py)\<close>

text \<open>
  The canonicalization oracle \<open>Nauty.canonize_neighborhood(graph, atom, shell, color_key)\<close>
  is a parameter of the collectors: a function from the graph, the atom, the shell size and
  the colouring attribute to a key.
\<close>

type_synonym 'k canonize = "graph \<Rightarrow> nat \<Rightarrow> int \<Rightarrow> string \<Rightarrow> 'k"

text \<open>
  Modelled from the spec: the default value of \<open>color_key\<close> in
  \<open>Nauty.canonize_neighborhood\<close> (the class \<open>Nauty\<close> is not among the sources). The
  histogram collector's plain-element lookup calls the oracle without a colouring
  attribute; the specification says that lookup uses elemental-type colouring.
\<close>

definition default_color_key :: string where
  "default_color_key = ''atom_type''"

definition np_mean :: "rat list \<Rightarrow> error + rat" where
  "np_mean vals = (if vals = [] then Inl NotANumber else Inr (sum_list vals / of_nat (length vals)))"

text \<open>
  \<open>MeanCollector.__collect\<close> returns the pair \<open>([mean_charge], [1.0])\<close> on a match and the
  empty list \<open>[]\<close> otherwise; \<open>None\<close> stands for that empty list.
\<close>

definition mean_collect ::
  "'k canonize \<Rightarrow> int \<Rightarrow> graph \<Rightarrow> nat \<Rightarrow> int \<Rightarrow> string \<Rightarrow> 'k charge_set
     \<Rightarrow> error + (rat list \<times> rat list) option" where
  "mean_collect canonize_neighborhood rounding_digits graph atom shell_size attribute charges =
     (case map_of charges shell_size of
        None \<Rightarrow> Inr None
      | Some by_key \<Rightarrow>
         (let key = canonize_neighborhood graph atom shell_size attribute in
          (case map_of by_key key of
             None \<Rightarrow> Inr None
           | Some vals \<Rightarrow>
              (case np_mean vals of
                 Inl e \<Rightarrow> Inl e
               | Inr m \<Rightarrow> Inr (Some ([py_round m rounding_digits], [1]))))))"

text \<open>
  The inner loop of \<open>MeanCollector.collect_values\<close> over the shell sizes, for one atom with
  node data \<open>data\<close>. The result \<open>None\<close> is the loop's \<open>else\<close> branch: no shell gave a match.
\<close>

fun mean_collect_atom ::
  "'k canonize \<Rightarrow> int \<Rightarrow> 'k repository \<Rightarrow> graph \<Rightarrow> bool \<Rightarrow> nat \<Rightarrow> attrs \<Rightarrow> int list
     \<Rightarrow> error + (rat list \<times> rat list) option" where
  "mean_collect_atom cn rd repository graph iacm_data_only atom data [] = Inr None"
| "mean_collect_atom cn rd repository graph iacm_data_only atom data (shell_size # shells) =
     (let atom_has_iacm = (data ''iacm'' \<noteq> None);
          attribute = (if atom_has_iacm then ''iacm'' else ''atom_type'')
      in (case mean_collect cn rd graph atom shell_size attribute (charges_iacm repository) of
            Inl e \<Rightarrow> Inl e
          | Inr found \<Rightarrow>
             (case (if found = None \<and> \<not> iacm_data_only
                    then mean_collect cn rd graph atom shell_size ''atom_type''
                           (charges_elem repository)
                    else Inr found) of
                Inl e \<Rightarrow> Inl e
              | Inr found' \<Rightarrow>
                 (if found' \<noteq> None then Inr found'
                  else mean_collect_atom cn rd repository graph iacm_data_only atom data shells))))"

text \<open>
  The outer loop over the atoms fills the dictionary \<open>charges\<close> (an association list in
  iteration order) and the list \<open>no_vals\<close>.
\<close>

fun mean_collect_nodes ::
  "'k canonize \<Rightarrow> int \<Rightarrow> 'k repository \<Rightarrow> graph \<Rightarrow> bool \<Rightarrow> int list \<Rightarrow> (nat \<times> attrs) list
     \<Rightarrow> error + ((nat \<times> rat list \<times> rat list) list \<times> nat list)" where
  "mean_collect_nodes cn rd repository graph iacm_data_only shells [] = Inr ([], [])"
| "mean_collect_nodes cn rd repository graph iacm_data_only shells ((atom, data) # rest) =
     (case mean_collect_atom cn rd repository graph iacm_data_only atom data shells of
        Inl e \<Rightarrow> Inl e
      | Inr found \<Rightarrow>
         (case mean_collect_nodes cn rd repository graph iacm_data_only shells rest of
            Inl e \<Rightarrow> Inl e
          | Inr (charges, no_vals) \<Rightarrow>
             (case found of
                None \<Rightarrow> Inr (charges, atom # no_vals)
              | Some cand \<Rightarrow> Inr ((atom, cand) # charges, no_vals))))"

definition mean_collect_values ::
  "'k canonize \<Rightarrow> int \<Rightarrow> 'k repository \<Rightarrow> graph \<Rightarrow> bool \<Rightarrow> int list
     \<Rightarrow> error + (nat \<times> rat list \<times> rat list) list" where
  "mean_collect_values cn rd repository graph iacm_data_only shells =
     (case mean_collect_nodes cn rd repository graph iacm_data_only shells (nodes graph) of
        Inl e \<Rightarrow> Inl e
      | Inr (charges, no_vals) \<Rightarrow>
         (if length no_vals > 0
          then Inl (AssignmentError no_vals (if 0 \<notin> set shells then SmallerShell else NoHint))
          else Inr charges))"

text \<open>
  The inner loop of \<open>HistogramCollector.collect_values\<close>. The plain-element branch is the
  \<open>elif\<close> of the test \<open>shell in charges_iacm\<close>. The outer \<open>option\<close> is \<open>None\<close> when the
  histogram loop does not end.
\<close>

fun histogram_collect_atom ::
  "'k canonize \<Rightarrow> int \<Rightarrow> 'k repository \<Rightarrow> graph \<Rightarrow> bool \<Rightarrow> int \<Rightarrow> nat \<Rightarrow> attrs \<Rightarrow> int list
     \<Rightarrow> (error + (rat list \<times> nat list) option) option" where
  "histogram_collect_atom cn rd repository graph iacm_data_only max_bins atom data [] =
     Some (Inr None)"
| "histogram_collect_atom cn rd repository graph iacm_data_only max_bins atom data (shell # shells) =
     (case map_of (charges_iacm repository) shell of
        Some by_key \<Rightarrow>
         (let key = cn graph atom shell (if data ''iacm'' \<noteq> None then ''iacm'' else ''atom_type'')
          in (case map_of by_key key of
                Some charges \<Rightarrow>
                 map_option (map_sum id Some) (calculate_histogram rd charges max_bins)
              | None \<Rightarrow>
                 histogram_collect_atom cn rd repository graph iacm_data_only max_bins atom data
                   shells))
      | None \<Rightarrow>
         (if \<not> iacm_data_only then
            (case map_of (charges_elem repository) shell of
               Some by_key \<Rightarrow>
                (let key = cn graph atom shell default_color_key
                 in (case map_of by_key key of
                       Some charges \<Rightarrow>
                        map_option (map_sum id Some) (calculate_histogram rd charges max_bins)
                     | None \<Rightarrow>
                        histogram_collect_atom cn rd repository graph iacm_data_only max_bins atom
                          data shells))
             | None \<Rightarrow>
                histogram_collect_atom cn rd repository graph iacm_data_only max_bins atom data
                  shells)
          else
            histogram_collect_atom cn rd repository graph iacm_data_only max_bins atom data
              shells))"

fun histogram_collect_nodes ::
  "'k canonize \<Rightarrow> int \<Rightarrow> 'k repository \<Rightarrow> graph \<Rightarrow> bool \<Rightarrow> int \<Rightarrow> int list
     \<Rightarrow> (nat \<times> attrs) list
     \<Rightarrow> (error + ((nat \<times> rat list \<times> nat list) list \<times> nat list)) option" where
  "histogram_collect_nodes cn rd repository graph iacm_data_only max_bins shells [] =
     Some (Inr ([], []))"
| "histogram_collect_nodes cn rd repository graph iacm_data_only max_bins shells
     ((atom, data) # rest) =
     (case histogram_collect_atom cn rd repository graph iacm_data_only max_bins atom data shells of
        None \<Rightarrow> None
      | Some (Inl e) \<Rightarrow> Some (Inl e)
      | Some (Inr found) \<Rightarrow>
         (case histogram_collect_nodes cn rd repository graph iacm_data_only max_bins shells rest of
            None \<Rightarrow> None
          | Some (Inl e) \<Rightarrow> Some (Inl e)
          | Some (Inr (histograms, no_vals)) \<Rightarrow>
             (case found of
                None \<Rightarrow> Some (Inr (histograms, atom # no_vals))
              | Some hist \<Rightarrow> Some (Inr ((atom, hist) # histograms, no_vals)))))"

text \<open>
  \<open>max_bins = max(int(kwargs['max_bins']), 1) if 'max_bins' in kwargs else MAX_BINS\<close>; the
  constant \<open>MAX_BINS\<close> of \<open>charge.settings\<close> is a parameter, and the keyword argument is an
  optional integer.
\<close>

definition histogram_max_bins :: "int \<Rightarrow> int option \<Rightarrow> int" where
  "histogram_max_bins MAX_BINS kwargs_max_bins =
     (case kwargs_max_bins of Some n \<Rightarrow> max n 1 | None \<Rightarrow> MAX_BINS)"

definition histogram_collect_values ::
  "'k canonize \<Rightarrow> int \<Rightarrow> int \<Rightarrow> 'k repository \<Rightarrow> graph \<Rightarrow> bool \<Rightarrow> int list \<Rightarrow> int option
     \<Rightarrow> (error + (nat \<times> rat list \<times> nat list) list) option" where
  "histogram_collect_values cn MAX_BINS rd repository graph iacm_data_only shells kwargs_max_bins =
     (case histogram_collect_nodes cn rd repository graph iacm_data_only
             (histogram_max_bins MAX_BINS kwargs_max_bins) shells (nodes graph) of
        None \<Rightarrow> None
      | Some (Inl e) \<Rightarrow> Some (Inl e)
      | Some (Inr (histograms, no_vals)) \<Rightarrow>
         (if length no_vals > 0
          then Some (Inl (AssignmentError no_vals
                 (if 0 \<notin> set shells then SmallerShellOrSimpleCharger else UseSimpleCharger)))
          else Some (Inr histograms)))"

section \<open>Redistribution (chargers.py, \<open>__add_redistributed_charges\<close>)\<close>

text \<open>
  The first loop fills the dictionary \<open>proportions\<close>, keyed by node, and sums it up in
  \<open>total_prop\<close>. A node whose score is not positive gets the proportion \<open>0\<close>.
\<close>

definition proportion :: "rat \<Rightarrow> rat \<Rightarrow> rat" where
  "proportion total_score score = (if score > 0 then total_score / score else 0)"

fun proportions_loop ::
  "rat \<Rightarrow> (nat \<times> attrs) list \<Rightarrow> (nat \<rightharpoonup> rat) \<Rightarrow> rat \<Rightarrow> error + ((nat \<rightharpoonup> rat) \<times> rat)" where
  "proportions_loop total_score [] proportions total_prop = Inr (proportions, total_prop)"
| "proportions_loop total_score ((v, data) # rest) proportions total_prop =
     (case get_num data ''score'' of
        Inl e \<Rightarrow> Inl e
      | Inr score \<Rightarrow>
         (let p = proportion total_score score
          in proportions_loop total_score rest (proportions(v \<mapsto> p)) (total_prop + p)))"

text \<open>
  The state of the second loop: the running sum, the least score seen so far (\<open>None\<close> is
  the initial \<open>float('inf')\<close>) and \<open>min_atom_data\<close>, a reference to the data dictionary of
  one node, kept as that node's position in the node list (\<open>None\<close> is Python's \<open>None\<close>).
\<close>

record redist_state =
  total_charge_redist :: rat
  min_score :: "rat option"
  min_atom_data :: "nat option"

definition below_min_score :: "rat \<Rightarrow> rat option \<Rightarrow> bool" where
  "below_min_score score m = (case m of None \<Rightarrow> True | Some ms \<Rightarrow> score < ms)"

definition redist_delta ::
  "int \<Rightarrow> (nat \<rightharpoonup> rat) \<Rightarrow> rat \<Rightarrow> rat \<Rightarrow> nat \<Rightarrow> error + rat" where
  "redist_delta rounding_digits proportions total_error total_prop v =
     (case proportions v of
        None \<Rightarrow> Inl (KeyError ''proportions'')
      | Some p \<Rightarrow>
         (if total_prop = 0 then Inl ZeroDivisionError
          else Inr (py_round ((p * total_error) / total_prop) rounding_digits)))"

text \<open>
  One pass of the second loop's body for the node at position \<open>i\<close>: the node's data after
  the pass, the state after it, and the exception it raised, if any.
\<close>

definition redistribute_node ::
  "int \<Rightarrow> (nat \<rightharpoonup> rat) \<Rightarrow> rat \<Rightarrow> rat \<Rightarrow> nat \<Rightarrow> nat \<Rightarrow> attrs \<Rightarrow> redist_state
     \<Rightarrow> attrs \<times> redist_state \<times> error option" where
  "redistribute_node rounding_digits proportions total_error total_prop i v data st =
     (case redist_delta rounding_digits proportions total_error total_prop v of
        Inl e \<Rightarrow> (data, st, Some e)
      | Inr delta \<Rightarrow>
         (case get_num data ''partial_charge'' of
            Inl e \<Rightarrow> (data, st, Some e)
          | Inr partial_charge \<Rightarrow>
             (let redist = py_round (partial_charge + delta) rounding_digits;
                  data' = data(''partial_charge_redist'' \<mapsto> Num redist);
                  st' = st\<lparr> total_charge_redist := total_charge_redist st + redist \<rparr>
              in (case get_num data' ''score'' of
                    Inl e \<Rightarrow> (data', st', Some e)
                  | Inr score \<Rightarrow>
                     (if below_min_score score (min_score st')
                      then (data', st'\<lparr> min_score := Some score, min_atom_data := Some i \<rparr>, None)
                      else (data', st', None))))))"

fun redistribute_loop ::
  "int \<Rightarrow> (nat \<rightharpoonup> rat) \<Rightarrow> rat \<Rightarrow> rat \<Rightarrow> nat \<Rightarrow> (nat \<times> attrs) list \<Rightarrow> redist_state
     \<Rightarrow> (nat \<times> attrs) list \<times> redist_state \<times> error option" where
  "redistribute_loop rd proportions total_error total_prop i [] st = ([], st, None)"
| "redistribute_loop rd proportions total_error total_prop i ((v, data) # rest) st =
     (case redistribute_node rd proportions total_error total_prop i v data st of
        (data', st', Some e) \<Rightarrow> ((v, data') # rest, st', Some e)
      | (data', st', None) \<Rightarrow>
         (case redistribute_loop rd proportions total_error total_prop (Suc i) rest st' of
            (rest', st'', err) \<Rightarrow> ((v, data') # rest', st'', err)))"

text \<open>
  The last step, under \<open>if min_atom_data:\<close>, which holds when the variable refers to a
  dictionary that is not empty: the node of least score takes the difference to the
  target, and the graph records the total.
\<close>

definition absorb_residual ::
  "int \<Rightarrow> graph \<Rightarrow> int \<Rightarrow> (nat \<times> attrs) list \<Rightarrow> redist_state \<Rightarrow> graph \<times> error option" where
  "absorb_residual rounding_digits graph total_charge nodes' st =
     (case min_atom_data st of
        None \<Rightarrow> (graph\<lparr> nodes := nodes' \<rparr>, None)
      | Some i \<Rightarrow>
         (let v = fst (nodes' ! i); data = snd (nodes' ! i) in
          if data = Map.empty then (graph\<lparr> nodes := nodes' \<rparr>, None)
          else
            (case get_num data ''partial_charge_redist'' of
               Inl e \<Rightarrow> (graph\<lparr> nodes := nodes' \<rparr>, Some e)
             | Inr redist \<Rightarrow>
                (let data' = data(''partial_charge_redist'' \<mapsto>
                        Num (py_round (redist + of_int total_charge - total_charge_redist st)
                               rounding_digits));
                     total = total_charge_redist st
                               + (of_int total_charge - total_charge_redist st)
                 in (graph\<lparr> nodes := nodes'[i := (v, data')],
                           graph_attrs := (graph_attrs graph)(''total_charge_redist'' \<mapsto>
                              Num (py_round total rounding_digits)) \<rparr>, None)))))"

text \<open>
  The whole step. The graph is changed in place, so the result is the graph as the step
  leaves it together with the exception that ended it, if any.
\<close>

definition add_redistributed_charges :: "int \<Rightarrow> graph \<Rightarrow> int \<Rightarrow> graph \<times> error option" where
  "add_redistributed_charges rounding_digits graph total_charge =
     (case get_num (graph_attrs graph) ''score'' of
        Inl e \<Rightarrow> (graph, Some e)
      | Inr total_score \<Rightarrow>
         (case get_num (graph_attrs graph) ''total_charge'' of
            Inl e \<Rightarrow> (graph, Some e)
          | Inr graph_total_charge \<Rightarrow>
             (let total_error = of_int total_charge - graph_total_charge in
              (case proportions_loop total_score (nodes graph) Map.empty 0 of
                 Inl e \<Rightarrow> (graph, Some e)
               | Inr (proportions, total_prop) \<Rightarrow>
                  (case redistribute_loop rounding_digits proportions total_error total_prop 0
                          (nodes graph)
                          \<lparr> total_charge_redist = 0, min_score = None, min_atom_data = None \<rparr> of
                     (nodes', st, Some e) \<Rightarrow> (graph\<lparr> nodes := nodes' \<rparr>, Some e)
                   | (nodes', st, None) \<Rightarrow>
                      absorb_residual rounding_digits graph total_charge nodes' st)))))"

text \<open>What the claims about the redistribution read off a graph.\<close>

definition num_attr :: "attrs \<Rightarrow> string \<Rightarrow> rat option" where
  "num_attr data k = (case data k of Some (Num x) \<Rightarrow> Some x | _ \<Rightarrow> None)"

definition redist_charges :: "graph \<Rightarrow> rat option list" where
  "redist_charges graph = map (\<lambda>(v, data). num_attr data ''partial_charge_redist'') (nodes graph)"

definition sum_redist :: "graph \<Rightarrow> rat" where
  "sum_redist graph =
     sum_list (map (\<lambda>c. case c of Some x \<Rightarrow> x | None \<Rightarrow> 0) (redist_charges graph))"

definition scores :: "graph \<Rightarrow> rat list" where
  "scores graph =
     map (\<lambda>(v, data). case num_attr data ''score'' of Some x \<Rightarrow> x | None \<Rightarrow> 0) (nodes graph)"

definition has_num :: "attrs \<Rightarrow> string \<Rightarrow> bool" where
  "has_num data k = (case data k of Some (Num x) \<Rightarrow> True | _ \<Rightarrow> False)"

definition solved :: "graph \<Rightarrow> bool" where
  "solved graph =
     (has_num (graph_attrs graph) ''score'' \<and> has_num (graph_attrs graph) ''total_charge'' \<and>
      list_all (\<lambda>(v, data). has_num data ''score'' \<and> has_num data ''partial_charge'') (nodes graph))"


text \<open>
  The adjustment \<open>delta\<close> the second loop computes for node \<open>v\<close>, from the graph alone: the
  total error, the proportions of the first loop and \<open>redist_delta\<close>.
\<close>

definition atom_delta :: "int \<Rightarrow> graph \<Rightarrow> int \<Rightarrow> nat \<Rightarrow> error + rat" where
  "atom_delta rounding_digits graph total_charge v =
     (case get_num (graph_attrs graph) ''score'' of
        Inl e \<Rightarrow> Inl e
      | Inr total_score \<Rightarrow>
         (case get_num (graph_attrs graph) ''total_charge'' of
            Inl e \<Rightarrow> Inl e
          | Inr graph_total_charge \<Rightarrow>
             (case proportions_loop total_score (nodes graph) Map.empty 0 of
                Inl e \<Rightarrow> Inl e
              | Inr (proportions, total_prop) \<Rightarrow>
                 redist_delta rounding_digits proportions
                   (of_int total_charge - graph_total_charge) total_prop v)))"

text \<open>
  The numbers the proofs name: a node's score and raw charge (\<open>0\<close> when the attribute is
  not a number) and the value the second loop stores for a node.
\<close>

definition score_of :: "attrs \<Rightarrow> rat" where
  "score_of data = (case num_attr data ''score'' of Some x \<Rightarrow> x | None \<Rightarrow> 0)"

definition partial_charge_of :: "attrs \<Rightarrow> rat" where
  "partial_charge_of data = (case num_attr data ''partial_charge'' of Some x \<Rightarrow> x | None \<Rightarrow> 0)"

definition redist_of :: "attrs \<Rightarrow> rat" where
  "redist_of data = (case num_attr data ''partial_charge_redist'' of Some x \<Rightarrow> x | None \<Rightarrow> 0)"

definition redist_value ::
  "int \<Rightarrow> (nat \<rightharpoonup> rat) \<Rightarrow> rat \<Rightarrow> rat \<Rightarrow> nat \<Rightarrow> attrs \<Rightarrow> rat" where
  "redist_value rounding_digits proportions total_error total_prop v data =
     py_round (partial_charge_of data
        + py_round (((case proportions v of Some p \<Rightarrow> p | None \<Rightarrow> 0) * total_error) / total_prop)
            rounding_digits) rounding_digits"

text \<open>
  The bookkeeping of \<open>min_score\<close> and \<open>min_atom_data\<close> in the second loop, on the scores
  alone: position \<open>i\<close> replaces the pair kept so far when its score is strictly below it.
\<close>

fun track_min :: "rat option \<times> nat option \<Rightarrow> nat \<Rightarrow> rat list \<Rightarrow> rat option \<times> nat option" where
  "track_min ma i [] = ma"
| "track_min ma i (s # ss) =
     track_min (if below_min_score s (fst ma) then (Some s, Some i) else ma) (Suc i) ss"

text \<open>
  Modelled from the spec: "the first atom of minimum score" is the first position, in
  iteration order, whose score is the least of all scores.
\<close>

definition first_min_index :: "rat list \<Rightarrow> nat" where
  "first_min_index ss = length (takeWhile (\<lambda>s. Min (set ss) < s) ss)"

text \<open>
  The charges the second loop stores, node by node, before the last step: the raw charge
  plus the node's \<open>delta\<close>, rounded.
\<close>

definition rounded_charges :: "int \<Rightarrow> graph \<Rightarrow> int \<Rightarrow> rat list" where
  "rounded_charges rounding_digits graph total_charge =
     map (\<lambda>(v, data).
            case atom_delta rounding_digits graph total_charge v of
              Inr delta \<Rightarrow> py_round (partial_charge_of data + delta) rounding_digits
            | Inl e \<Rightarrow> 0)
         (nodes graph)"

text \<open>The frame of the step: a graph with the two attributes the step writes erased.\<close>

definition erase_node :: "nat \<times> attrs \<Rightarrow> nat \<times> attrs" where
  "erase_node n = (fst n, (snd n)(''partial_charge_redist'' := None))"

definition erase_redist :: "graph \<Rightarrow> graph" where
  "erase_redist graph =
     graph\<lparr> nodes := map erase_node (nodes graph),
            graph_attrs := (graph_attrs graph)(''total_charge_redist'' := None) \<rparr>"

text \<open>
  Two notions the proofs name: the state the second loop leaves after one node, and a number
  that rounding to \<open>d\<close> digits leaves unchanged.
\<close>

definition node_state ::
  "int \<Rightarrow> (nat \<rightharpoonup> rat) \<Rightarrow> rat \<Rightarrow> rat \<Rightarrow> nat \<Rightarrow> nat \<Rightarrow> attrs \<Rightarrow> redist_state
     \<Rightarrow> redist_state" where
  "node_state d props te tp i v data st =
     (if below_min_score (score_of data) (min_score st)
      then st\<lparr> total_charge_redist := total_charge_redist st + redist_value d props te tp v data,
               min_score := Some (score_of data), min_atom_data := Some i \<rparr>
      else st\<lparr> total_charge_redist := total_charge_redist st + redist_value d props te tp v data \<rparr>)"

definition grain_multiple :: "int \<Rightarrow> rat \<Rightarrow> bool" where
  "grain_multiple d x = (py_round x d = x)"

text \<open>Graphs as a solver leaves them, for the examples.\<close>

definition solved_atom :: "rat \<Rightarrow> rat \<Rightarrow> attrs" where
  "solved_atom score partial_charge =
     [''score'' \<mapsto> Num score, ''partial_charge'' \<mapsto> Num partial_charge]"

definition solved_graph :: "(nat \<times> attrs) list \<Rightarrow> rat \<Rightarrow> rat \<Rightarrow> graph" where
  "solved_graph ns score total_charge =
     \<lparr> nodes = ns, edges = [],
       graph_attrs = [''score'' \<mapsto> Num score, ''total_charge'' \<mapsto> Num total_charge] \<rparr>"

section \<open>The operation \<open>charge\<close>\<close>

text \<open>
  \<open>util.iacmize\<close> and the solvers are not among the sources; they are parameters: a graph
  transformation, and a function from the graph, the collected values and the target to
  the graph with \<open>partial_charge\<close>, \<open>score\<close> and \<open>total_charge\<close> set, or an error. The
  outer \<open>option\<close> is \<open>None\<close> when the histogram loop does not end.
\<close>

definition collect_values ::
  "'k canonize \<Rightarrow> int \<Rightarrow> 'k charger \<Rightarrow> graph \<Rightarrow> bool \<Rightarrow> int list \<Rightarrow> int option
     \<Rightarrow> (error + (nat \<times> rat list \<times> rat list) list) option" where
  "collect_values cn MAX_BINS c graph iacm_data_only shells kwargs_max_bins =
     (case collector_class (the_collector c) of
        MeanCollector \<Rightarrow>
          Some (mean_collect_values cn (collector_rounding_digits (the_collector c)) (repo c)
                  graph iacm_data_only shells)
      | HistogramCollector \<Rightarrow>
          map_option (map_sum id (map (\<lambda>(atom, centers, counts). (atom, centers, map of_nat counts))))
            (histogram_collect_values cn MAX_BINS (collector_rounding_digits (the_collector c))
               (repo c) graph iacm_data_only shells kwargs_max_bins))"

definition charge ::
  "'k canonize \<Rightarrow> (graph \<Rightarrow> graph)
     \<Rightarrow> (solver \<Rightarrow> graph \<Rightarrow> (nat \<times> rat list \<times> rat list) list \<Rightarrow> int \<Rightarrow> error + graph)
     \<Rightarrow> int \<Rightarrow> 'k charger \<Rightarrow> graph \<Rightarrow> int \<Rightarrow> bool \<Rightarrow> bool \<Rightarrow> shell_arg \<Rightarrow> int option
     \<Rightarrow> (graph \<times> error option) option" where
  "charge cn iacmize_graph solve_partial_charges MAX_BINS c graph total_charge iacmize
     iacm_data_only shell kwargs_max_bins =
     (case charge_shells (repo c) shell of
        Inl e \<Rightarrow> Some (graph, Some e)
      | Inr shells \<Rightarrow>
         (let graph = (if iacmize then iacmize_graph graph else graph) in
          (case collect_values cn MAX_BINS c graph (iacm_data_only \<or> iacmize) shells
                  kwargs_max_bins of
             None \<Rightarrow> None
           | Some (Inl e) \<Rightarrow> Some (graph, Some e)
           | Some (Inr vals) \<Rightarrow>
              (case solve_partial_charges (the_solver c) graph vals total_charge of
                 Inl e \<Rightarrow> Some (graph, Some e)
               | Inr graph' \<Rightarrow>
                  Some (add_redistributed_charges (charger_rounding_digits c) graph'
                          total_charge)))))"

section \<open>Properties of the chargers\<close>

lemma charge_shells_nonzero_int:
  "n \<noteq> 0 \<Longrightarrow> charge_shells repository (ShellInt n) = Inr [n]"
  by (simp add: charge_shells_def)

text \<open>
  C5. An integer shell argument is meant to give the singleton list of that integer. For
  the integer \<open>0\<close> the truth test \<open>not shell\<close> succeeds, and \<open>charge\<close> takes every shell size of
  the repository's IACM ChargeSet in descending order instead: with IACM shells 0, 1 and 2
  it tries \<open>[2, 1, 0]\<close>, not \<open>[0]\<close>.
\<close>

theorem charge_shell_zero_uses_repository_shells:
  "charge_shells \<lparr> charges_iacm = [(0, []), (1, []), (2, [])], charges_elem = [] \<rparr> (ShellInt 0)
     = Inr [2, 1, 0]"
  by (simp add: charge_shells_def sorted_reverse_def)

text \<open>
  C6. A list passed as the shell argument is meant to be used as given. A non-empty list
  reaches the instance check against \<open>Iterable[int]\<close>, which raises \<open>TypeError\<close>; an empty
  list is falsy and is replaced by the repository's shell sizes.
\<close>

theorem charge_shell_list_raises_TypeError:
  "charge_shells \<lparr> charges_iacm = [(0, []), (1, []), (2, [])], charges_elem = [] \<rparr> (ShellIter [2, 1])
     = Inl (TypeError ''Subscripted generics cannot be used with class and instance checks'')
   \<and> charge_shells \<lparr> charges_iacm = [(0, []), (1, []), (2, [])], charges_elem = [] \<rparr> (ShellIter [])
     = Inr [2, 1, 0]"
  by (simp add: charge_shells_def sorted_reverse_def isinstance_Iterable_int_def)

text \<open>
  C7. The DP-based chargers are documented as using dynamic programming. Both \<open>DPCharger\<close>
  and \<open>CDPCharger\<close> construct the ILP solver, so each is the same object as an \<open>ILPCharger\<close>
  built from the same arguments, and neither holds a \<open>DPSolver\<close> or a \<open>CDPSolver\<close>.
\<close>

theorem DPCharger_constructs_ILPSolver:
  "solver_class (the_solver (DPCharger m r d s)) = ILPSolver
   \<and> solver_class (the_solver (CDPCharger m r d s)) = ILPSolver
   \<and> collector_class (the_collector (DPCharger m r d s)) = HistogramCollector
   \<and> DPCharger m r d s = ILPCharger m r d s
   \<and> CDPCharger m r d s = ILPCharger m r d s"
  by (simp add: DPCharger_def CDPCharger_def ILPCharger_def)

section \<open>Properties of the collectors\<close>

text \<open>
  The mean collector probes the plain-element set whenever the IACM lookup at a shell gave
  nothing. The histogram collector probes it only in the \<open>elif\<close> branch of
  \<open>shell in charges_iacm\<close>: when the IACM set has the shell but not the key, the shell is
  left without the plain-element set being read.
\<close>

lemma mean_collector_probes_elem:
  assumes "mean_collect cn rd graph atom shell_size
             (if data ''iacm'' \<noteq> None then ''iacm'' else ''atom_type'') (charges_iacm repository)
           = Inr None"
    and "\<not> iacm_data_only"
    and "mean_collect cn rd graph atom shell_size ''atom_type'' (charges_elem repository)
           = Inr (Some c)"
  shows "mean_collect_atom cn rd repository graph iacm_data_only atom data (shell_size # shells)
           = Inr (Some c)"
  using assms by (simp add: Let_def)

lemma histogram_collector_elem_not_probed:
  assumes "map_of (charges_iacm repository) shell = Some by_key"
    and "map_of by_key
           (cn graph atom shell (if data ''iacm'' \<noteq> None then ''iacm'' else ''atom_type'')) = None"
  shows "histogram_collect_atom cn rd repository graph iacm_data_only max_bins atom data
           (shell # shells)
         = histogram_collect_atom cn rd repository graph iacm_data_only max_bins atom data shells"
  using assms by (simp add: Let_def)

lemma py_round_tenth: "py_round (1 / 10) 3 = 1 / 10"
  by code_simp

text \<open>
  C2 at a concrete repository. Shell 1 is in both sets; the atom's key 0 is missing from the
  IACM set and present in the plain-element set, and \<open>iacm_data_only\<close> is false. The mean
  collector returns the plain-element charge 0.1; the histogram collector raises
  \<open>AssignmentError\<close> for the atom.
\<close>

theorem histogram_collector_skips_elem:
  "mean_collect_values (\<lambda>graph atom shell color_key. 0 :: nat) 3
      \<lparr> charges_iacm = [(1, [(7, [1 / 5])])], charges_elem = [(1, [(0, [1 / 10])])] \<rparr>
      \<lparr> nodes = [(1, [''atom_type'' \<mapsto> Str ''C''])], edges = [], graph_attrs = Map.empty \<rparr>
      False [1]
    = Inr [(1, [1 / 10], [1])]
   \<and> histogram_collect_values (\<lambda>graph atom shell color_key. 0 :: nat) 5 3
      \<lparr> charges_iacm = [(1, [(7, [1 / 5])])], charges_elem = [(1, [(0, [1 / 10])])] \<rparr>
      \<lparr> nodes = [(1, [''atom_type'' \<mapsto> Str ''C''])], edges = [], graph_attrs = Map.empty \<rparr>
      False [1] None
    = Some (Inl (AssignmentError [1] SmallerShellOrSimpleCharger))"
  by (simp add: mean_collect_values_def mean_collect_def np_mean_def py_round_tenth
      histogram_collect_values_def histogram_max_bins_def)

section \<open>Properties of the histogram binning\<close>

lemma py_min_Min: "xs \<noteq> [] \<Longrightarrow> py_min xs = Inr (Min (set xs))"
proof (cases xs)
  case (Cons a list)
  then show ?thesis using Min.set_eq_fold[of a list] by simp
qed simp

lemma py_max_Max: "xs \<noteq> [] \<Longrightarrow> py_max xs = Inr (Max (set xs))"
proof (cases xs)
  case (Cons a list)
  then show ?thesis using Max.set_eq_fold[of a list] by simp
qed simp

lemma round_to_bounds:
  assumes s: "0 < step"
  shows "x - step / 2 \<le> round_to x step up" and "round_to x step up < x + step / 2"
proof -
  define k where "k = \<lceil>x / step - 1 / 2\<rceil>"
  have r: "round_to x step up = of_int k * step" by (simp add: round_to_def k_def)
  have "x / step \<le> of_int k + 1 / 2" unfolding k_def by linarith
  then have "x \<le> (of_int k + 1 / 2) * step" using s by (simp only: pos_divide_le_eq)
  then show "x - step / 2 \<le> round_to x step up" by (simp add: r algebra_simps)
  have "of_int k - 1 / 2 < x / step" unfolding k_def by linarith
  then have "(of_int k - 1 / 2) * step < x" using s by (simp only: pos_less_divide_eq)
  then show "round_to x step up < x + step / 2" by (simp add: r algebra_simps)
qed

lemma length_bin_counts: "length (bin_counts a es) = length es - 1"
  by (induction a es rule: bin_counts.induct) simp_all

lemma np_count_nonzero_le: "np_count_nonzero counts \<le> length counts"
  by (simp add: np_count_nonzero_def)

lemma np_arange_eq:
  assumes "(stop - start) / step = of_int n + q" and "\<lceil>q\<rceil> = c"
  shows "np_arange start stop step = map (\<lambda>i. start + of_nat i * step) [0 ..< nat (n + c)]"
proof -
  have "\<lceil>of_int n + q\<rceil> = n + c" using assms(2) by (simp add: add.commute)
  then show ?thesis unfolding np_arange_def assms(1) by simp
qed

lemma sorted_edges:
  assumes s: "0 < (step::rat)" and e: "0 \<le> eps"
  shows "sorted ((map (\<lambda>i. c + of_nat i * step) [0 ..< Suc n])[n := c + of_nat n * step + eps])"
proof -
  have "c + of_nat i * step \<le> c + of_nat j * step" if "i \<le> j" for i j :: nat
    using that s by (simp add: mult_right_mono)
  moreover have "c + of_nat i * step \<le> c + of_nat j * step + eps" if "i \<le> j" for i j :: nat
    using that s e by (simp add: mult_right_mono add_increasing2)
  ultimately show ?thesis
    by (auto simp: sorted_iff_nth_mono nth_list_update simp del: upt_Suc)
qed

lemma histogram_pass_shape:
  assumes ne: "charges \<noteq> []" and s: "0 < step"
  shows "\<exists>a b counts. a \<le> b \<and>
           a = \<lceil>Min (set charges) / step - 1 / 2\<rceil> \<and> b = \<lceil>Max (set charges) / step - 1 / 2\<rceil> \<and>
           histogram_pass charges step =
             Inr (map (\<lambda>i. of_int a * step + of_nat i * step) [0 ..< nat (b - a + 1)], counts) \<and>
           length counts = nat (b - a + 1)"
proof -
  define a where "a = \<lceil>Min (set charges) / step - 1 / 2\<rceil>"
  define b where "b = \<lceil>Max (set charges) / step - 1 / 2\<rceil>"
  have "Min (set charges) \<le> Max (set charges)" using ne by simp
  then have "Min (set charges) / step - 1 / 2 \<le> Max (set charges) / step - 1 / 2"
    using s by (simp add: divide_right_mono)
  then have ab: "a \<le> b" unfolding a_def b_def by (rule ceiling_mono)
  define n where "n = nat (b - a + 1)"
  have n2: "nat (b - a + 2) = Suc n" using ab by (simp add: n_def)
  define edges where
    "edges = map (\<lambda>i. of_int a * step - 1 / 2 * step + of_nat i * step) [0 ..< Suc n]"
  have r1: "(of_int b * step + 1 / 2 * step - of_int a * step) / step = of_int (b - a) + 1 / 2"
    using s by (simp add: field_simps)
  have c1: "np_arange (of_int a * step) (of_int b * step + 1 / 2 * step) step =
              map (\<lambda>i. of_int a * step + of_nat i * step) [0 ..< n]"
    unfolding n_def by (rule np_arange_eq[OF r1]) (rule ceiling_unique, simp_all)
  have r2: "(of_int b * step + 1 / 2 * step + 1 / 2 * step - (of_int a * step - 1 / 2 * step)) / step
              = of_int (b - a) + 3 / 2"
    using s by (simp add: field_simps)
  have c2: "np_arange (of_int a * step - 1 / 2 * step) (of_int b * step + 1 / 2 * step + 1 / 2 * step) step
              = edges"
    unfolding edges_def n2[symmetric] by (rule np_arange_eq[OF r2]) (rule ceiling_unique, simp_all)
  have ene: "edges \<noteq> []" and len: "length edges - 1 = n" and len': "length edges = Suc n"
    by (simp_all add: edges_def del: upt_Suc)
  have lst: "last edges = of_int a * step - 1 / 2 * step + of_nat n * step"
    by (simp add: edges_def)
  have srt: "sorted (edges[length edges - 1 := last edges + 1 / 10 ^ 15])"
    unfolding lst len unfolding edges_def by (rule sorted_edges[OF s]) simp
  let ?counts = "bin_counts charges (edges[length edges - 1 := last edges + 1 / 10 ^ 15])"
  have hp: "histogram_pass charges step =
          Inr (map (\<lambda>i. of_int a * step + of_nat i * step) [0 ..< nat (b - a + 1)], ?counts)"
    unfolding histogram_pass_def py_min_Min[OF ne] py_max_Max[OF ne] min_charge_bin_def
        max_charge_bin_def round_to_def a_def[symmetric] b_def[symmetric] sum.case Let_def
        c1 c2 add_to_last_def np_histogram_def n_def[symmetric]
    using srt ene by (simp only: if_True if_False sum.case)
  have lc: "length ?counts = nat (b - a + 1)"
    unfolding n_def[symmetric] by (simp add: length_bin_counts len' del: upt_Suc)
  show ?thesis
    by (rule exI[of _ a], rule exI[of _ b], rule exI[of _ ?counts]) (intro conjI ab a_def b_def hp lc)
qed

lemma take_nonzero: "map (\<lambda>i. xs ! i) (filter (\<lambda>i. P (xs ! i)) [0 ..< length xs]) = filter P xs"
proof -
  have "filter P xs = filter P (map (\<lambda>i. xs ! i) [0 ..< length xs])" by (simp add: map_nth)
  also have "\<dots> = map (\<lambda>i. xs ! i) (filter (\<lambda>i. P (xs ! i)) [0 ..< length xs])"
    by (simp add: filter_map o_def)
  finally show ?thesis by simp
qed

lemma pow10_pos: "0 < pow10 d"
  by (simp add: pow10_def)

lemma ceiling_small:
  assumes s: "0 < step" and x: "\<bar>x\<bar> < step / 2"
  shows "\<lceil>x / step - 1 / 2\<rceil> = (0::int)"
proof (rule ceiling_unique)
  have "- (step / 2) < x" and "x < step / 2" using x by linarith+
  then have "- (1 / 2) < x / step" and "x / step < 1 / 2"
    using s by (simp_all add: pos_less_divide_eq pos_divide_less_eq)
  then show "of_int 0 - 1 < x / step - 1 / 2" and "x / step - 1 / 2 \<le> of_int 0" by simp_all
qed

lemma histogram_pass_collapse:
  assumes ne: "charges \<noteq> []" and s: "0 < step" and small: "\<forall>x\<in>set charges. \<bar>x\<bar> < step / 2"
  shows "\<exists>centers counts. histogram_pass charges step = Inr (centers, counts) \<and> length counts = 1"
proof -
  have "Min (set charges) \<in> set charges" and "Max (set charges) \<in> set charges"
    using ne by (simp_all add: Min_in Max_in)
  then have "\<lceil>Min (set charges) / step - 1 / 2\<rceil> = 0" and "\<lceil>Max (set charges) / step - 1 / 2\<rceil> = 0"
    using small s by (simp_all add: ceiling_small)
  with histogram_pass_shape[OF ne s] show ?thesis by auto
qed

lemma abs_bound_exists: "\<exists>M::rat. 0 \<le> M \<and> (\<forall>x\<in>set xs. \<bar>x\<bar> \<le> M)"
proof (induction xs)
  case Nil
  show ?case by auto
next
  case (Cons x xs)
  then obtain M where "0 \<le> M" and "\<forall>y\<in>set xs. \<bar>y\<bar> \<le> M" by blast
  then have "0 \<le> max M \<bar>x\<bar> \<and> (\<forall>y\<in>set (x # xs). \<bar>y\<bar> \<le> max M \<bar>x\<bar>)" by fastforce
  then show ?case by blast
qed

lemma histogram_loop_returns:
  assumes ne: "charges \<noteq> []" and g: "0 < grain" and mb: "1 \<le> max_bins" and sp: "0 \<le> spacing"
  shows "\<exists>centers counts step. 0 < step \<and>
           histogram_loop charges max_bins grain spacing = Some (Inr (centers, counts)) \<and>
           histogram_pass charges step = Inr (centers, counts) \<and>
           int (np_count_nonzero counts) \<le> max_bins"
proof -
  obtain M where M: "0 \<le> M" "\<forall>x\<in>set charges. \<bar>x\<bar> \<le> M" using abs_bound_exists by blast
  define N where "N = \<lceil>2 * M / grain\<rceil> + 1"
  have big: "\<forall>x\<in>set charges. \<bar>x\<bar> < grain * of_int k / 2" if "N \<le> k" for k
  proof -
    have "2 * M / grain \<le> of_int \<lceil>2 * M / grain\<rceil>" by (rule le_of_int_ceiling)
    also have "\<dots> < of_int k" using that by (simp add: N_def)
    finally have "2 * M < grain * of_int k" using g by (simp add: pos_divide_less_eq mult.commute)
    then show ?thesis using M(2) by fastforce
  qed
  show ?thesis using sp
  proof (induction "nat (N - spacing)" arbitrary: spacing rule: less_induct)
    case less
    let ?step = "grain * of_int (spacing + 1)"
    have st: "0 < ?step" using g less.prems by simp
    from histogram_pass_shape[OF ne st] obtain centers counts where
      hp: "histogram_pass charges ?step = Inr (centers, counts)" by blast
    have unfold: "histogram_loop charges max_bins grain spacing =
        (if int (np_count_nonzero counts) > max_bins
         then histogram_loop charges max_bins grain (spacing + 1)
         else Some (Inr (centers, counts)))"
      by (subst histogram_loop.simps) (simp only: hp sum.case prod.case)
    show ?case
    proof (cases "int (np_count_nonzero counts) > max_bins")
      case False
      then show ?thesis using unfold hp st by auto
    next
      case True
      have "\<not> N \<le> spacing + 1"
      proof
        assume "N \<le> spacing + 1"
        from histogram_pass_collapse[OF ne st big[OF this]] hp have "length counts = 1" by simp
        then have "np_count_nonzero counts \<le> 1" using np_count_nonzero_le[of counts] by simp
        then show False using True mb by linarith
      qed
      then have "nat (N - (spacing + 1)) < nat (N - spacing)" by linarith
      from less.hyps[OF this] less.prems
      obtain c' n' step' where "0 < step'"
        "histogram_loop charges max_bins grain (spacing + 1) = Some (Inr (c', n'))"
        "histogram_pass charges step' = Inr (c', n')" "int (np_count_nonzero n') \<le> max_bins"
        by fastforce
      then show ?thesis using unfold True by auto
    qed
  qed
qed

lemma sorted_centers_take:
  assumes s: "0 < (step::rat)"
  shows "sorted_wrt (<) (map (\<lambda>i. (map (\<lambda>i. c + of_nat i * step) [0 ..< n]) ! i) (filter P [0 ..< n]))"
proof -
  have "sorted_wrt (<) (filter P [0 ..< n])" by (rule sorted_wrt_filter) simp
  then have "sorted_wrt (\<lambda>i j. c + of_nat i * step < c + of_nat j * step) (filter P [0 ..< n])"
    by (rule sorted_wrt_mono_rel[rotated]) (use s in simp)
  then have srt: "sorted_wrt (<) (map (\<lambda>i. c + of_nat i * step) (filter P [0 ..< n]))"
    by (simp add: sorted_wrt_map)
  have eq: "map (\<lambda>i. (map (\<lambda>i. c + of_nat i * step) [0 ..< n]) ! i) (filter P [0 ..< n])
      = map (\<lambda>i. c + of_nat i * step) (filter P [0 ..< n])"
    by (rule map_cong) auto
  show ?thesis unfolding eq by (rule srt)
qed

text \<open>
  C8 (amended). For every non-empty list of charges and every \<open>max_bins \<ge> 1\<close> the
  binning loop ends and \<open>__calculate_histogram\<close> returns parallel lists of bin centers and
  counts of equal length, with at most \<open>max_bins\<close> entries, no count zero, and the centers
  in strictly ascending order. Numbers are exact rationals here.
\<close>

theorem calculate_histogram_bounded:
  assumes ne: "charges \<noteq> []" and mb: "1 \<le> max_bins"
  shows "\<exists>bin_centers counts.
           calculate_histogram rounding_digits charges max_bins = Some (Inr (bin_centers, counts)) \<and>
           length bin_centers = length counts \<and>
           int (length counts) \<le> max_bins \<and>
           0 \<notin> set counts \<and>
           sorted_wrt (<) bin_centers"
proof -
  from histogram_loop_returns[OF ne pow10_pos mb, of 0 "- rounding_digits"]
  obtain centers counts step where st: "0 < step"
    and loop: "histogram_loop charges max_bins (pow10 (- rounding_digits)) 0 = Some (Inr (centers, counts))"
    and hp: "histogram_pass charges step = Inr (centers, counts)"
    and nb: "int (np_count_nonzero counts) \<le> max_bins" by auto
  from histogram_pass_shape[OF ne st] hp obtain a n where
    cs: "centers = map (\<lambda>i. of_int a * step + of_nat i * step) [0 ..< n]" and len: "length counts = n"
    by auto
  let ?idx = "np_nonzero counts"
  have idx: "list_all (\<lambda>i. i < length counts) ?idx" "list_all (\<lambda>i. i < length centers) ?idx"
    by (simp_all add: np_nonzero_def list_all_iff cs len)
  have tc: "map (\<lambda>i. counts ! i) ?idx = filter (\<lambda>c. c \<noteq> 0) counts"
    unfolding np_nonzero_def by (rule take_nonzero)
  have res: "calculate_histogram rounding_digits charges max_bins =
      Some (Inr (map (\<lambda>i. centers ! i) ?idx, filter (\<lambda>c. c \<noteq> 0) counts))"
    by (simp add: calculate_histogram_def loop np_take_def idx tc)
  have l1: "length (map (\<lambda>i. centers ! i) ?idx) = length (filter (\<lambda>c. c \<noteq> 0) counts)"
    using arg_cong[OF tc, of length] by simp
  have l2: "int (length (filter (\<lambda>c. c \<noteq> 0) counts)) \<le> max_bins"
    using nb by (simp add: np_count_nonzero_def)
  have l3: "0 \<notin> set (filter (\<lambda>c. c \<noteq> 0) counts)" by simp
  have l4: "sorted_wrt (<) (map (\<lambda>i. centers ! i) ?idx)"
    unfolding cs np_nonzero_def len by (rule sorted_centers_take[OF st])
  show ?thesis using res l1 l2 l3 l4 by blast
qed

text \<open>The same at a concrete list, with the histogram it gives.\<close>

theorem calculate_histogram_bounded_witness:
  "[1 / 10, 1 / 5, 1 / 4, 3 / 10, 1 :: rat] \<noteq> [] \<and> (1::int) \<le> 2 \<and>
   calculate_histogram 1 [1 / 10, 1 / 5, 1 / 4, 3 / 10, 1] 2 = Some (Inr ([0, 7 / 10], [4, 1])) \<and>
   (\<exists>bin_centers counts.
      calculate_histogram 1 [1 / 10, 1 / 5, 1 / 4, 3 / 10, 1] 2 = Some (Inr (bin_centers, counts)) \<and>
      length bin_centers = length counts \<and> int (length counts) \<le> 2 \<and> 0 \<notin> set counts \<and>
      sorted_wrt (<) bin_centers)"
proof -
  have "calculate_histogram 1 [1 / 10, 1 / 5, 1 / 4, 3 / 10, 1] 2 = Some (Inr ([0, 7 / 10], [4, 1]))"
    by code_simp
  then show ?thesis
    using calculate_histogram_bounded[of "[1 / 10, 1 / 5, 1 / 4, 3 / 10, 1]" 2 1] by simp
qed

text \<open>
  C8 as stated speaks of all value lists. For the empty list \<open>min(charges)\<close> raises
  \<open>ValueError\<close> in the first pass, and no bins are returned.
\<close>

theorem calculate_histogram_empty_raises:
  "calculate_histogram 0 [] 1 = Some (Inl ValueError)"
  by code_simp

subsection \<open>The rounding of the two outer bin centers\<close>

lemma round_to_ignores_up: "round_to x step True = round_to x step False"
  by (simp add: round_to_def)

lemma round_to_ties_down:
  assumes s: "0 < step"
  shows "round_to x step up = nearest_multiple_ties_down x step"
proof -
  define q where "q = x / step"
  define k where "k = \<lfloor>q\<rfloor>"
  have k1: "of_int k \<le> q" and k2: "q < of_int k + 1" unfolding k_def by linarith+
  show ?thesis
  proof (cases "q - of_int k \<le> 1 / 2")
    case True
    then have "\<lceil>q - 1 / 2\<rceil> = k" using k1 by (intro ceiling_unique) simp_all
    then show ?thesis using True
      by (simp add: round_to_def nearest_multiple_ties_down_def q_def[symmetric] k_def[symmetric] Let_def)
  next
    case False
    then have "\<lceil>q - 1 / 2\<rceil> = k + 1" using k2 by (intro ceiling_unique) simp_all
    then show ?thesis using False
      by (simp add: round_to_def nearest_multiple_ties_down_def q_def[symmetric] k_def[symmetric] Let_def)
  qed
qed

lemma bin_range_rounds_ties_down:
  assumes s: "0 < step"
  shows "min_charge_bin x step = nearest_multiple_ties_down x step"
    and "max_charge_bin x step = nearest_multiple_ties_down x step"
  using s by (simp_all add: min_charge_bin_def max_charge_bin_def round_to_ties_down)

text \<open>
  C4 at a concrete list. With \<open>rounding_digits = 0\<close> the first bin width is 1, and the
  single charge 0.5 lies halfway between the multiples 0 and 1. The call
  \<open>round_to(max(charges), step, True)\<close> gives the center 0, the lower multiple, where the
  nearest multiple with ties going up is 1; the histogram returned has the one center 0.
\<close>

theorem max_center_tie_rounds_down:
  "py_min [1 / 2] = Inr (1 / 2) \<and> py_max [1 / 2] = Inr (1 / 2)
   \<and> min_charge_bin (1 / 2) (pow10 (- 0) * 1) = 0
   \<and> max_charge_bin (1 / 2) (pow10 (- 0) * 1) = 0
   \<and> nearest_multiple_ties_up (1 / 2) (pow10 (- 0) * 1) = 1
   \<and> calculate_histogram 0 [1 / 2] 1 = Some (Inr ([0], [1]))"
  by code_simp

section \<open>Properties of the redistribution\<close>

lemma round_half_even_of_int: "round_half_even (of_int k) = k"
  by (simp add: round_half_even_def)

lemma py_round_multiple: "py_round (of_int k / pow10 d) d = of_int k / pow10 d"
proof -
  have "of_int k / pow10 d * pow10 d = (of_int k :: rat)" using pow10_pos[of d] by simp
  then show ?thesis by (simp add: py_round_def round_half_even_of_int)
qed

lemma of_int_multiple: "0 \<le> d \<Longrightarrow> (of_int T :: rat) = of_int (T * 10 ^ nat d) / pow10 d"
  by (simp add: pow10_def)

lemma round_half_even_mono: "x \<le> y \<Longrightarrow> round_half_even x \<le> round_half_even y"
proof -
  assume xy: "x \<le> y"
  have fl: "\<lfloor>x\<rfloor> \<le> \<lfloor>y\<rfloor>" using xy by (rule floor_mono)
  show ?thesis
  proof (cases "\<lfloor>x\<rfloor> = \<lfloor>y\<rfloor>")
    case True
    then show ?thesis using xy by (auto simp: round_half_even_def Let_def)
  next
    case False
    then have "\<lfloor>x\<rfloor> + 1 \<le> \<lfloor>y\<rfloor>" using fl by linarith
    moreover have "round_half_even x \<le> \<lfloor>x\<rfloor> + 1" by (auto simp: round_half_even_def Let_def)
    moreover have "\<lfloor>y\<rfloor> \<le> round_half_even y" by (auto simp: round_half_even_def Let_def)
    ultimately show ?thesis by linarith
  qed
qed

lemma round_half_even_zero: "round_half_even 0 = 0"
  by (simp add: round_half_even_def)

lemma round_half_even_neg: "round_half_even (- x) = - round_half_even x"
proof (cases "x = of_int \<lfloor>x\<rfloor>")
  case True
  then obtain k where "x = of_int k" by blast
  then show ?thesis
    using round_half_even_of_int[of "- k"] round_half_even_of_int[of k] by simp
next
  case False
  then have lt: "of_int \<lfloor>x\<rfloor> < x" using of_int_floor_le[of x] by linarith
  have ub: "x < of_int \<lfloor>x\<rfloor> + 1" by linarith
  have "\<lfloor>- x\<rfloor> = - \<lfloor>x\<rfloor> - 1"
  proof (rule floor_unique)
    show "of_int (- \<lfloor>x\<rfloor> - 1) \<le> - x" using ub by simp
    show "- x < of_int (- \<lfloor>x\<rfloor> - 1) + 1" using lt by simp
  qed
  then show ?thesis
    using lt by (auto simp: round_half_even_def Let_def)
qed

lemma py_round_mono: "x \<le> y \<Longrightarrow> py_round x d \<le> py_round y d"
proof -
  assume "x \<le> y"
  then have "x * pow10 d \<le> y * pow10 d" using pow10_pos[of d] by (simp add: mult_right_mono)
  then have "round_half_even (x * pow10 d) \<le> round_half_even (y * pow10 d)"
    by (rule round_half_even_mono)
  then show ?thesis using pow10_pos[of d] by (simp add: py_round_def divide_right_mono)
qed

lemma py_round_zero: "py_round 0 d = 0"
  by (simp add: py_round_def round_half_even_zero)

lemma py_round_neg: "py_round (- x) d = - py_round x d"
  by (simp add: py_round_def round_half_even_neg)

lemma abs_py_round_scale:
  assumes c: "0 \<le> c" "c \<le> 1"
  shows "\<bar>py_round (c * a) d\<bar> \<le> \<bar>py_round a d\<bar>"
proof (cases "0 \<le> a")
  case True
  then have "0 \<le> c * a" and "c * a \<le> a" using c by (simp_all add: mult_left_le_one_le)
  then have "0 \<le> py_round (c * a) d" and "py_round (c * a) d \<le> py_round a d"
    using py_round_mono[of 0 "c * a" d] py_round_mono[of "c * a" a d] by (simp_all add: py_round_zero)
  then show ?thesis by linarith
next
  case False
  then have "c * a \<le> 0" and "a \<le> c * a" using c
    by (simp_all add: mult_nonneg_nonpos mult_left_le_one_le[of "- a" c, simplified])
  then have "py_round (c * a) d \<le> 0" and "py_round a d \<le> py_round (c * a) d"
    using py_round_mono[of "c * a" 0 d] py_round_mono[of a "c * a" d] by (simp_all add: py_round_zero)
  then show ?thesis by linarith
qed

lemma get_num_has_num: "has_num data k \<Longrightarrow> \<exists>x. get_num data k = Inr x \<and> num_attr data k = Some x"
  by (auto simp: has_num_def num_attr_def get_num_def split: option.splits val.splits)

lemma get_num_score_of: "has_num data ''score'' \<Longrightarrow> get_num data ''score'' = Inr (score_of data)"
  using get_num_has_num[of data "''score''"] by (auto simp: score_of_def)

lemma get_num_partial_charge_of:
  "has_num data ''partial_charge'' \<Longrightarrow> get_num data ''partial_charge'' = Inr (partial_charge_of data)"
  using get_num_has_num[of data "''partial_charge''"] by (auto simp: partial_charge_of_def)

lemma proportions_loop_ok:
  assumes "list_all (\<lambda>(v, data). has_num data ''score'') ns"
  shows "proportions_loop ts ns props tp =
           Inr (props ++ map_of (rev (map (\<lambda>(v, data). (v, proportion ts (score_of data))) ns)),
                tp + sum_list (map (\<lambda>(v, data). proportion ts (score_of data)) ns))"
  using assms
proof (induction ns arbitrary: props tp)
  case Nil
  show ?case by simp
next
  case (Cons n ns)
  obtain v data where n: "n = (v, data)" by (cases n)
  from Cons.prems n have hn: "has_num data ''score''" and rest: "list_all (\<lambda>(v, data). has_num data ''score'') ns"
    by simp_all
  let ?f = "\<lambda>(v, data). (v, proportion ts (score_of data))"
  let ?p = "proportion ts (score_of data)"
  have eq: "props ++ map_of (rev (map ?f (n # ns))) = props(v \<mapsto> ?p) ++ map_of (rev (map ?f ns))"
    unfolding n by (rule ext) (simp add: map_add_def split: option.splits)
  have "proportions_loop ts (n # ns) props tp = proportions_loop ts ns (props(v \<mapsto> ?p)) (tp + ?p)"
    unfolding n by (simp add: get_num_score_of[OF hn] Let_def)
  also have "\<dots> = Inr (props(v \<mapsto> ?p) ++ map_of (rev (map ?f ns)),
      tp + ?p + sum_list (map (\<lambda>(v, data). proportion ts (score_of data)) ns))"
    by (rule Cons.IH[OF rest])
  also have "\<dots> = Inr (props ++ map_of (rev (map ?f (n # ns))),
      tp + sum_list (map (\<lambda>(v, data). proportion ts (score_of data)) (n # ns)))"
    unfolding eq n by (simp add: add.assoc)
  finally show ?case .
qed

lemma get_num_upd_other: "k \<noteq> k' \<Longrightarrow> get_num (data(k' \<mapsto> x)) k = get_num data k"
  by (simp add: get_num_def)

lemma redistribute_node_ok:
  assumes sc: "has_num data ''score''" and pc: "has_num data ''partial_charge''"
    and pv: "props v \<noteq> None" and tp: "tp \<noteq> 0"
  shows "redistribute_node d props te tp i v data st =
           (data(''partial_charge_redist'' \<mapsto> Num (redist_value d props te tp v data)),
            node_state d props te tp i v data st, None)"
proof -
  from pv obtain p where p: "props v = Some p" by blast
  have delta: "redist_delta d props te tp v = Inr (py_round ((p * te) / tp) d)"
    by (simp add: redist_delta_def p tp)
  have sc': "get_num (data(''partial_charge_redist'' \<mapsto> x)) ''score'' = Inr (score_of data)" for x
    by (simp add: get_num_upd_other get_num_score_of[OF sc])
  show ?thesis
    unfolding redistribute_node_def delta
    by (simp add: get_num_partial_charge_of[OF pc] sc' Let_def node_state_def redist_value_def p)
qed

lemma node_state_fields:
  "total_charge_redist (node_state d props te tp i v data st)
     = total_charge_redist st + redist_value d props te tp v data"
  "(min_atom_data (node_state d props te tp i v data st) = Some i
      \<and> min_score (node_state d props te tp i v data st) \<noteq> None)
   \<or> (min_atom_data (node_state d props te tp i v data st) = min_atom_data st
      \<and> min_score (node_state d props te tp i v data st) = min_score st \<and> min_score st \<noteq> None)"
  by (auto simp: node_state_def below_min_score_def split: option.splits)

lemma redistribute_loop_ok:
  assumes "list_all (\<lambda>(v, data). has_num data ''score'' \<and> has_num data ''partial_charge''
              \<and> props v \<noteq> None) ns" and tp: "tp \<noteq> 0"
  shows "\<exists>st'. redistribute_loop d props te tp i ns st =
            (map (\<lambda>(v, data). (v, data(''partial_charge_redist'' \<mapsto>
                    Num (redist_value d props te tp v data)))) ns, st', None)
          \<and> total_charge_redist st' = total_charge_redist st
                + sum_list (map (\<lambda>(v, data). redist_value d props te tp v data) ns)
          \<and> ((\<exists>j. min_atom_data st' = Some j \<and> i \<le> j \<and> j < i + length ns)
              \<or> (min_atom_data st' = min_atom_data st \<and> min_score st' = min_score st
                  \<and> (ns = [] \<or> min_score st \<noteq> None)))"
  using assms(1)
proof (induction ns arbitrary: i st)
  case Nil
  show ?case by simp
next
  case (Cons n ns)
  obtain v data where n: "n = (v, data)" by (cases n)
  from Cons.prems n have hn: "has_num data ''score''" "has_num data ''partial_charge''" "props v \<noteq> None"
    and rest: "list_all (\<lambda>(v, data). has_num data ''score'' \<and> has_num data ''partial_charge''
              \<and> props v \<noteq> None) ns" by simp_all
  let ?st1 = "node_state d props te tp i v data st"
  from Cons.IH[OF rest, of "Suc i" ?st1] obtain st' where
    loop: "redistribute_loop d props te tp (Suc i) ns ?st1 =
            (map (\<lambda>(v, data). (v, data(''partial_charge_redist'' \<mapsto>
                    Num (redist_value d props te tp v data)))) ns, st', None)"
    and tcr: "total_charge_redist st' = total_charge_redist ?st1
                + sum_list (map (\<lambda>(v, data). redist_value d props te tp v data) ns)"
    and mn: "(\<exists>j. min_atom_data st' = Some j \<and> Suc i \<le> j \<and> j < Suc i + length ns)
              \<or> (min_atom_data st' = min_atom_data ?st1 \<and> min_score st' = min_score ?st1
                  \<and> (ns = [] \<or> min_score ?st1 \<noteq> None))" by blast
  have res: "redistribute_loop d props te tp i (n # ns) st =
            (map (\<lambda>(v, data). (v, data(''partial_charge_redist'' \<mapsto>
                    Num (redist_value d props te tp v data)))) (n # ns), st', None)"
    unfolding n
    by (simp add: redistribute_node_ok[of data props v tp, OF hn tp] loop)
  have tcr': "total_charge_redist st' = total_charge_redist st
                + sum_list (map (\<lambda>(v, data). redist_value d props te tp v data) (n # ns))"
    unfolding n using tcr by (simp add: node_state_fields(1) add.assoc)
  have mn': "(\<exists>j. min_atom_data st' = Some j \<and> i \<le> j \<and> j < i + length (n # ns))
              \<or> (min_atom_data st' = min_atom_data st \<and> min_score st' = min_score st
                  \<and> (n # ns = [] \<or> min_score st \<noteq> None))"
    using mn node_state_fields(2)[of d props te tp i v data st] by fastforce
  show ?case using res tcr' mn' by blast
qed

lemma grain_multiple_iff: "grain_multiple d x = (\<exists>k::int. x = of_int k / pow10 d)"
proof
  assume "grain_multiple d x"
  then have "x = of_int (round_half_even (x * pow10 d)) / pow10 d"
    by (simp add: grain_multiple_def py_round_def)
  then show "\<exists>k::int. x = of_int k / pow10 d" by blast
next
  assume "\<exists>k::int. x = of_int k / pow10 d"
  then show "grain_multiple d x" unfolding grain_multiple_def using py_round_multiple by auto
qed

lemma grain_multiple_py_round: "grain_multiple d (py_round x d)"
  unfolding grain_multiple_iff py_round_def by blast

lemma grain_multiple_add: "grain_multiple d x \<Longrightarrow> grain_multiple d y \<Longrightarrow> grain_multiple d (x + y)"
  unfolding grain_multiple_iff
proof -
  assume "\<exists>k. x = of_int k / pow10 d" "\<exists>k. y = of_int k / pow10 d"
  then obtain a b where "x = of_int a / pow10 d" "y = of_int b / pow10 d" by blast
  then have "x + y = of_int (a + b) / pow10 d" by (simp add: add_divide_distrib)
  then show "\<exists>k. x + y = of_int k / pow10 d" by blast
qed

lemma grain_multiple_diff: "grain_multiple d x \<Longrightarrow> grain_multiple d y \<Longrightarrow> grain_multiple d (x - y)"
  unfolding grain_multiple_iff
proof -
  assume "\<exists>k. x = of_int k / pow10 d" "\<exists>k. y = of_int k / pow10 d"
  then obtain a b where "x = of_int a / pow10 d" "y = of_int b / pow10 d" by blast
  then have "x - y = of_int (a - b) / pow10 d" by (simp add: diff_divide_distrib)
  then show "\<exists>k. x - y = of_int k / pow10 d" by blast
qed

lemma grain_multiple_zero: "grain_multiple d 0"
  unfolding grain_multiple_iff by (rule exI[of _ 0]) simp

lemma grain_multiple_of_int: "0 \<le> d \<Longrightarrow> grain_multiple d (of_int T)"
  unfolding grain_multiple_iff using of_int_multiple[of d T] by blast

lemma grain_multiple_sum_list: "(\<forall>x\<in>set xs. grain_multiple d x) \<Longrightarrow> grain_multiple d (sum_list xs)"
  by (induction xs) (simp_all add: grain_multiple_zero grain_multiple_add)

lemma py_round_grain_multiple: "grain_multiple d x \<Longrightarrow> py_round x d = x"
  by (simp add: grain_multiple_def)

lemma grain_multiple_redist_value: "grain_multiple d (redist_value d props te tp v data)"
  unfolding redist_value_def by (rule grain_multiple_py_round)

lemma sum_proportions:
  "sum_list (map (\<lambda>(v, data). proportion ts (score_of data)) ns)
     = ts * sum_list (map (\<lambda>(v, data). if 0 < score_of data then 1 / score_of data else 0) ns)"
  by (induction ns) (auto simp: proportion_def algebra_simps)

lemma inverse_scores_nonneg:
  "0 \<le> sum_list (map (\<lambda>(v, data). if 0 < score_of data then 1 / score_of data else 0) ns)"
  by (induction ns) (auto simp: add_nonneg_nonneg)

lemma inverse_scores_pos:
  "list_ex (\<lambda>(v, data). 0 < score_of data) ns \<Longrightarrow>
     0 < sum_list (map (\<lambda>(v, data). if 0 < score_of data then 1 / score_of data else 0) ns)"
proof (induction ns)
  case Nil
  then show ?case by simp
next
  case (Cons n ns)
  obtain v data where n: "n = (v, data)" by (cases n)
  show ?case
  proof (cases "0 < score_of data")
    case True
    then have "0 < 1 / score_of data" by simp
    then show ?thesis
      unfolding n using True inverse_scores_nonneg[of ns] by (simp add: add_pos_nonneg)
  next
    case False
    then have "list_ex (\<lambda>(v, data). 0 < score_of data) ns" using Cons.prems n by simp
    from Cons.IH[OF this] show ?thesis unfolding n using False by simp
  qed
qed

lemma scores_score_of: "scores graph = map (\<lambda>(v, data). score_of data) (nodes graph)"
  by (simp add: scores_def score_of_def)

lemma list_ex_scores:
  "list_ex (\<lambda>s. 0 < s) (scores graph) = list_ex (\<lambda>(v, data). 0 < score_of data) (nodes graph)"
  by (simp add: scores_score_of list_ex_iff split_def)

lemma proportions_defined:
  "(v, data) \<in> set ns \<Longrightarrow>
     (props ++ map_of (rev (map (\<lambda>(v, data). (v, f data)) ns))) v \<noteq> None"
proof -
  assume "(v, data) \<in> set ns"
  then have "v \<in> fst ` set (rev (map (\<lambda>(v, data). (v, f data)) ns))" by force
  then have "v \<in> dom (map_of (rev (map (\<lambda>(v, data). (v, f data)) ns)))"
    by (simp only: dom_map_of_conv_image_fst)
  then show ?thesis by (auto simp: map_add_def split: option.splits)
qed

lemma sum_list_update_rat:
  "k < length xs \<Longrightarrow> sum_list (xs[k := x]) = sum_list xs + x - (xs ! k :: rat)"
  by (induction xs arbitrary: k) (auto split: nat.splits)

subsection \<open>The atom that takes the residual\<close>

lemma Min_Cons:
  "Min (set (s # ss)) = (if ss = [] \<or> s \<le> Min (set ss) then s else Min (set ss))"
proof (cases "ss = []")
  case True
  then show ?thesis by simp
next
  case False
  then have "Min (set (s # ss)) = min s (Min (set ss))" by (simp add: Min_insert)
  then show ?thesis using False by (auto simp: min_def)
qed

lemma first_min_index_Cons:
  "first_min_index (s # ss) =
     (if ss = [] \<or> s \<le> Min (set ss) then 0 else Suc (first_min_index ss))"
proof (cases "ss = [] \<or> s \<le> Min (set ss)")
  case True
  then have "Min (set (s # ss)) = s" by (simp only: Min_Cons if_True)
  then have "first_min_index (s # ss) = 0" unfolding first_min_index_def by simp
  then show ?thesis using True by (simp only: if_True)
next
  case False
  then have m: "Min (set (s # ss)) = Min (set ss)" by (simp only: Min_Cons if_False)
  from False have "\<not> s \<le> Min (set ss)" by blast
  then have lt: "Min (set ss) < s" by (simp only: not_le)
  have "first_min_index (s # ss) = Suc (first_min_index ss)"
    unfolding first_min_index_def m using lt by (simp only: takeWhile.simps if_True list.size length_Cons)
  then show ?thesis using False by (simp only: if_False)
qed

lemma track_min_Some:
  "track_min (Some m, Some a) i ss =
     (if ss = [] \<or> m \<le> Min (set ss) then (Some m, Some a)
      else (Some (Min (set ss)), Some (i + first_min_index ss)))"
proof (induction ss arbitrary: m a i)
  case Nil
  show ?case by simp
next
  case (Cons s ss)
  show ?case
  proof (cases "s < m")
    case True
    have "Min (set (s # ss)) \<le> s" by (rule Min_le) simp_all
    then have nm: "\<not> (s # ss = [] \<or> m \<le> Min (set (s # ss)))" using True by auto
    have "track_min (Some m, Some a) i (s # ss) = track_min (Some s, Some i) (Suc i) ss"
      using True by (simp add: below_min_score_def)
    also have "\<dots> = (if ss = [] \<or> s \<le> Min (set ss) then (Some s, Some i)
      else (Some (Min (set ss)), Some (Suc i + first_min_index ss)))" by (rule Cons.IH)
    also have "\<dots> = (Some (Min (set (s # ss))), Some (i + first_min_index (s # ss)))"
    proof (cases "ss = [] \<or> s \<le> Min (set ss)")
      case True
      then show ?thesis by (simp only: Min_Cons first_min_index_Cons if_True add_0_right)
    next
      case False
      then show ?thesis by (simp only: Min_Cons first_min_index_Cons if_False add_Suc_right add_Suc)
    qed
    finally show ?thesis using nm by (simp only: if_False)
  next
    case False
    then have ms: "m \<le> s" by simp
    have eq: "track_min (Some m, Some a) i (s # ss) = track_min (Some m, Some a) (Suc i) ss"
      using False by (simp add: below_min_score_def)
    also have ih: "\<dots> = (if ss = [] \<or> m \<le> Min (set ss) then (Some m, Some a)
      else (Some (Min (set ss)), Some (Suc i + first_min_index ss)))" by (rule Cons.IH)
    finally have tm: "track_min (Some m, Some a) i (s # ss) =
      (if ss = [] \<or> m \<le> Min (set ss) then (Some m, Some a)
      else (Some (Min (set ss)), Some (Suc i + first_min_index ss)))" .
    show ?thesis
    proof (cases "ss = [] \<or> m \<le> Min (set ss)")
      case True
      have "m \<le> Min (set (s # ss))"
      proof (cases "ss = [] \<or> s \<le> Min (set ss)")
        case True
        then show ?thesis using ms by (simp only: Min_Cons if_True)
      next
        case F2: False
        then have "ss \<noteq> []" by blast
        with True have "m \<le> Min (set ss)" by blast
        then show ?thesis using F2 by (simp only: Min_Cons if_False)
      qed
      then have c: "s # ss = [] \<or> m \<le> Min (set (s # ss))" by blast
      show ?thesis using tm True c by (simp only: if_True)
    next
      case F1: False
      then have ne: "ss \<noteq> []" and nle: "\<not> m \<le> Min (set ss)" by blast+
      from nle have "Min (set ss) < m" by (simp only: not_le)
      then have "Min (set ss) < s" using ms by (rule less_le_trans)
      then have "\<not> s \<le> Min (set ss)" by (simp only: not_le)
      with ne have F3: "\<not> (ss = [] \<or> s \<le> Min (set ss))" by blast
      have m2: "Min (set (s # ss)) = Min (set ss)" using F3 by (simp only: Min_Cons if_False)
      have f2: "first_min_index (s # ss) = Suc (first_min_index ss)"
        using F3 by (simp only: first_min_index_Cons if_False)
      have c: "\<not> (s # ss = [] \<or> m \<le> Min (set (s # ss)))" using nle unfolding m2 by blast
      show ?thesis using tm F1 c unfolding m2 f2 by (simp only: if_False add_Suc_right add_Suc)
    qed
  qed
qed

lemma track_min_None:
  assumes "ss \<noteq> []"
  shows "track_min (None, None) 0 ss = (Some (Min (set ss)), Some (first_min_index ss))"
proof -
  obtain s rest where ss: "ss = s # rest" using assms by (cases ss) auto
  have "track_min (None, None) 0 (s # rest) = track_min (Some s, Some 0) (Suc 0) rest"
    by (simp add: below_min_score_def)
  also have "\<dots> = (Some (Min (set (s # rest))), Some (first_min_index (s # rest)))"
    unfolding track_min_Some Min_Cons first_min_index_Cons by simp
  finally show ?thesis unfolding ss .
qed

lemma first_min_index_first:
  assumes "ss \<noteq> []"
  shows "first_min_index ss < length ss" and "ss ! first_min_index ss = Min (set ss)"
    and "i < first_min_index ss \<Longrightarrow> Min (set ss) < ss ! i"
proof -
  let ?P = "\<lambda>s. Min (set ss) < s"
  have "Min (set ss) \<in> set ss" using assms by (simp add: Min_in)
  then have "\<exists>x\<in>set ss. \<not> ?P x" by auto
  then have "takeWhile ?P ss \<noteq> ss" by (simp add: takeWhile_eq_all_conv)
  then have lt: "length (takeWhile ?P ss) < length ss"
    using length_takeWhile_le[of ?P ss] by (metis le_neq_implies_less takeWhile_eq_take take_all_iff order_refl)
  then show "first_min_index ss < length ss" by (simp add: first_min_index_def)
  have "\<not> ?P (ss ! length (takeWhile ?P ss))" using lt by (rule nth_length_takeWhile)
  moreover have "Min (set ss) \<le> ss ! length (takeWhile ?P ss)" using lt by simp
  ultimately show "ss ! first_min_index ss = Min (set ss)" by (simp add: first_min_index_def)
  show "Min (set ss) < ss ! i" if "i < first_min_index ss"
  proof -
    have i: "i < length (takeWhile ?P ss)" using that by (simp add: first_min_index_def)
    then have "takeWhile ?P ss ! i \<in> set (takeWhile ?P ss)" by simp
    then have "?P (takeWhile ?P ss ! i)" by (rule set_takeWhileD[THEN conjunct2])
    then show ?thesis using i by (simp add: takeWhile_nth)
  qed
qed

lemma redistribute_loop_min:
  assumes "list_all (\<lambda>(v, data). has_num data ''score'' \<and> has_num data ''partial_charge''
              \<and> props v \<noteq> None) ns" and tp: "tp \<noteq> 0"
  shows "(min_score (fst (snd (redistribute_loop d props te tp i ns st))),
          min_atom_data (fst (snd (redistribute_loop d props te tp i ns st))))
         = track_min (min_score st, min_atom_data st) i (map (\<lambda>(v, data). score_of data) ns)"
  using assms(1)
proof (induction ns arbitrary: i st)
  case Nil
  show ?case by simp
next
  case (Cons n ns)
  obtain v data where n: "n = (v, data)" by (cases n)
  from Cons.prems n have hn: "has_num data ''score''" "has_num data ''partial_charge''" "props v \<noteq> None"
    and rest: "list_all (\<lambda>(v, data). has_num data ''score'' \<and> has_num data ''partial_charge''
              \<and> props v \<noteq> None) ns" by simp_all
  let ?st1 = "node_state d props te tp i v data st"
  have st1: "(min_score ?st1, min_atom_data ?st1)
      = (if below_min_score (score_of data) (fst (min_score st, min_atom_data st))
         then (Some (score_of data), Some i) else (min_score st, min_atom_data st))"
    by (simp add: node_state_def)
  have "fst (snd (redistribute_loop d props te tp i (n # ns) st))
          = fst (snd (redistribute_loop d props te tp (Suc i) ns ?st1))"
    unfolding n
    by (simp add: redistribute_node_ok[of data props v tp, OF hn tp] split_def)
  then show ?case
    unfolding n using Cons.IH[OF rest, of "Suc i" ?st1] by (simp add: st1)
qed

text \<open>
  C1 (amended). For every solved graph with an atom of positive score whose graph-level
  score is not zero, and a rounding precision of at least zero digits, the redistribution
  step ends without an exception, every atom has a redistributed charge, their sum is
  exactly the target total charge, and the graph records that total. The charges are the
  rounded charges of the second loop, except at the first atom of minimum score, which
  takes the rounding residual, the target minus the sum of the rounded charges, on top of
  its own. Numbers are exact rationals here; the target is an integer, as the signature of
  \<open>charge\<close> says.
\<close>

theorem redistribution_exact:
  assumes sol: "solved graph"
    and pos: "list_ex (\<lambda>s. 0 < s) (scores graph)"
    and ts: "num_attr (graph_attrs graph) ''score'' \<noteq> Some 0"
    and d: "0 \<le> rounding_digits"
  shows "\<exists>graph'. add_redistributed_charges rounding_digits graph total_charge = (graph', None)
           \<and> list_all (\<lambda>c. c \<noteq> None) (redist_charges graph')
           \<and> sum_redist graph' = of_int total_charge
           \<and> num_attr (graph_attrs graph') ''total_charge_redist'' = Some (of_int total_charge)
           \<and> redist_charges graph' =
               map Some ((rounded_charges rounding_digits graph total_charge)
                 [first_min_index (scores graph) :=
                    rounded_charges rounding_digits graph total_charge ! first_min_index (scores graph)
                    + (of_int total_charge
                       - sum_list (rounded_charges rounding_digits graph total_charge))])"
proof -
  let ?d = rounding_digits and ?T = "of_int total_charge :: rat"
  let ?pcr = "''partial_charge_redist''"
  define ns where "ns = nodes graph"
  from sol obtain tsv tc where
    g1: "get_num (graph_attrs graph) ''score'' = Inr tsv" and tsv: "num_attr (graph_attrs graph) ''score'' = Some tsv"
    and g2: "get_num (graph_attrs graph) ''total_charge'' = Inr tc"
    using get_num_has_num unfolding solved_def by blast
  have tsv0: "tsv \<noteq> 0" using ts tsv by simp
  have all: "list_all (\<lambda>(v, data). has_num data ''score'' \<and> has_num data ''partial_charge'') ns"
    using sol by (simp add: solved_def ns_def)
  then have all1: "list_all (\<lambda>(v, data). has_num data ''score'') ns"
    by (simp add: list_all_iff split_def)
  define props where
    "props = Map.empty ++ map_of (rev (map (\<lambda>(v, data). (v, proportion tsv (score_of data))) ns))"
  define tprop where "tprop = 0 + sum_list (map (\<lambda>(v, data). proportion tsv (score_of data)) ns)"
  define te where "te = ?T - tc"
  have l1: "proportions_loop tsv ns Map.empty 0 = Inr (props, tprop)"
    unfolding props_def tprop_def by (rule proportions_loop_ok[OF all1])
  have "0 < sum_list (map (\<lambda>(v, data). if 0 < score_of data then 1 / score_of data else 0) ns)"
    using pos unfolding list_ex_scores ns_def by (rule inverse_scores_pos)
  then have tp0: "tprop \<noteq> 0" using tsv0 by (simp add: tprop_def sum_proportions)
  have all2: "list_all (\<lambda>(v, data). has_num data ''score'' \<and> has_num data ''partial_charge''
              \<and> props v \<noteq> None) ns"
  proof -
    have "props v \<noteq> None" if "(v, data) \<in> set ns" for v data
      unfolding props_def using that by (rule proportions_defined)
    then show ?thesis using all by (auto simp: list_all_iff)
  qed
  define rv where "rv = (\<lambda>(v, data). redist_value ?d props te tprop v data)"
  define upd where "upd = (\<lambda>(v :: nat, data :: attrs). (v, data(?pcr \<mapsto> Num (rv (v, data)))))"
  define st0 where "st0 = \<lparr> total_charge_redist = 0, min_score = None, min_atom_data = None \<rparr>"
  have ne: "ns \<noteq> []" using pos by (auto simp: scores_score_of ns_def)
  from redistribute_loop_ok[OF all2 tp0, of ?d te 0 st0] ne
  obtain st' j where
    l2: "redistribute_loop ?d props te tprop 0 ns st0 = (map upd ns, st', None)"
    and tcr: "total_charge_redist st' = sum_list (map rv ns)"
    and mn: "min_atom_data st' = Some j" and j: "j < length ns"
    unfolding upd_def rv_def st0_def by (auto simp: split_def)
  have "(min_score st', min_atom_data st')
          = track_min (None, None) 0 (map (\<lambda>(v, data). score_of data) ns)"
    using redistribute_loop_min[OF all2 tp0, of ?d te 0 st0] unfolding l2 by (simp add: st0_def)
  also have "\<dots> = (Some (Min (set (scores graph))), Some (first_min_index (scores graph)))"
    unfolding scores_score_of ns_def[symmetric] using ne by (intro track_min_None) simp
  finally have jm: "j = first_min_index (scores graph)" using mn by simp
  have rc: "map rv ns = rounded_charges ?d graph total_charge"
  proof -
    have "rv (v, data) = (case atom_delta ?d graph total_charge v of
              Inr delta \<Rightarrow> py_round (partial_charge_of data + delta) ?d | Inl e \<Rightarrow> 0)"
      if "(v, data) \<in> set ns" for v data
    proof -
      from all2 that obtain p where p: "props v = Some p" by (auto simp: list_all_iff)
      have "atom_delta ?d graph total_charge v = Inr (py_round ((p * te) / tprop) ?d)"
        unfolding atom_delta_def g1 g2
        by (simp add: ns_def[symmetric] l1 te_def[symmetric] redist_delta_def p tp0)
      then show ?thesis by (simp add: rv_def redist_value_def p)
    qed
    then have "\<forall>n\<in>set ns. rv n = (\<lambda>(v, data).
            case atom_delta ?d graph total_charge v of
              Inr delta \<Rightarrow> py_round (partial_charge_of data + delta) ?d
            | Inl e \<Rightarrow> 0) n" by fast
    then show ?thesis unfolding rounded_charges_def ns_def[symmetric] by (intro map_cong refl) simp
  qed
  obtain vj dj where nj: "ns ! j = (vj, dj)" by (cases "ns ! j")
  define rj where "rj = rv (vj, dj)"
  define ns' where "ns' = map upd ns"
  have updj: "ns' ! j = (vj, dj(?pcr \<mapsto> Num rj))"
    using j nj by (simp add: ns'_def upd_def rj_def)
  have gm_rv: "grain_multiple ?d (rv n)" for n
    unfolding rv_def by (cases n) (simp add: grain_multiple_redist_value)
  have gm_tcr: "grain_multiple ?d (total_charge_redist st')"
    unfolding tcr by (rule grain_multiple_sum_list) (auto simp: gm_rv)
  have gm_T: "grain_multiple ?d ?T" using d by (rule grain_multiple_of_int)
  define new where "new = rj + ?T - total_charge_redist st'"
  have gm_new: "grain_multiple ?d new"
    unfolding new_def rj_def by (intro grain_multiple_diff grain_multiple_add gm_rv gm_T gm_tcr)
  have tot: "total_charge_redist st' + (?T - total_charge_redist st') = ?T" by simp
  define graph' where
    "graph' = graph\<lparr> nodes := ns'[j := (vj, (dj(?pcr \<mapsto> Num rj))(?pcr \<mapsto> Num new))],
        graph_attrs := (graph_attrs graph)(''total_charge_redist'' \<mapsto> Num ?T) \<rparr>"
  have ab: "absorb_residual ?d graph total_charge ns' st' = (graph', None)"
    unfolding absorb_residual_def graph'_def
    by (simp add: mn updj get_num_def Let_def new_def[symmetric]
        py_round_grain_multiple[OF gm_new] tot py_round_grain_multiple[OF gm_T])
  have res: "add_redistributed_charges ?d graph total_charge = (graph', None)"
    unfolding add_redistributed_charges_def g1 g2
    by (simp add: ns_def[symmetric] te_def[symmetric] l1 st0_def[symmetric] l2
        ns'_def[symmetric] ab)
  let ?val = "\<lambda>(v :: nat, data :: attrs). num_attr data ?pcr"
  have vals: "map ?val (nodes graph') = (map (\<lambda>n. Some (rv n)) ns)[j := Some new]"
    by (simp add: graph'_def ns'_def map_update upd_def num_attr_def split_def o_def)
  have c1: "list_all (\<lambda>c. c \<noteq> None) (redist_charges graph')"
  proof -
    have "c \<noteq> None" if "c \<in> set ((map (\<lambda>n. Some (rv n)) ns)[j := Some new])" for c
    proof -
      from that have "c \<in> insert (Some new) (set (map (\<lambda>n. Some (rv n)) ns))"
        using set_update_subset_insert by fast
      then show ?thesis by auto
    qed
    then show ?thesis unfolding redist_charges_def vals by (simp add: list_all_iff)
  qed
  have "map (\<lambda>c. case c of Some x \<Rightarrow> x | None \<Rightarrow> 0) ((map (\<lambda>n. Some (rv n)) ns)[j := Some new])
          = (map rv ns)[j := new]"
    by (simp add: map_update o_def)
  then have "sum_redist graph' = sum_list ((map rv ns)[j := new])"
    unfolding sum_redist_def redist_charges_def vals by simp
  also have "\<dots> = sum_list (map rv ns) + new - rv (ns ! j)"
    using j by (simp add: sum_list_update_rat)
  also have "\<dots> = ?T" by (simp add: new_def tcr nj rj_def)
  finally have c2: "sum_redist graph' = ?T" .
  have c3: "num_attr (graph_attrs graph') ''total_charge_redist'' = Some ?T"
    by (simp add: graph'_def num_attr_def)
  have "redist_charges graph' = map Some ((map rv ns)[j := new])"
    unfolding redist_charges_def vals by (simp add: map_update o_def)
  also have "new = map rv ns ! j + (?T - sum_list (map rv ns))"
    using j by (simp add: new_def tcr rj_def nj)
  finally have c4: "redist_charges graph' =
      map Some ((rounded_charges ?d graph total_charge)
        [first_min_index (scores graph) :=
           rounded_charges ?d graph total_charge ! first_min_index (scores graph)
           + (?T - sum_list (rounded_charges ?d graph total_charge))])"
    unfolding rc jm .
  show ?thesis by (rule exI[of _ graph']) (intro conjI res c1 c2 c3 c4)
qed

subsection \<open>Concrete graphs\<close>

lemmas redist_eval =
  add_redistributed_charges_def absorb_residual_def redistribute_node_def redist_delta_def
  get_num_def proportion_def below_min_score_def solved_atom_def solved_graph_def Let_def

lemmas obs_eval =
  solved_def has_num_def num_attr_def scores_def redist_charges_def sum_redist_def
  solved_atom_def solved_graph_def

lemmas delta_eval =
  atom_delta_def redist_delta_def get_num_def proportion_def solved_atom_def solved_graph_def
  Let_def

lemma py_round_example:
  "py_round (1 / 2000) 3 = 0" "py_round (1 / 10) 3 = 1 / 10"
  "py_round (- (101 / 1000)) 3 = - (101 / 1000)" "py_round (101 / 1000) 3 = 101 / 1000"
  "py_round 0 3 = 0" "py_round 1 3 = 1" "py_round (1 / 2) 3 = 1 / 2"
  "py_round (- (1 / 2)) 3 = - (1 / 2)"
  "py_round (3 / 13000) 3 = 0" "py_round (3 / 6500) 3 = 0" "py_round (1 / 3250) 3 = 0"
  "py_round (1 / 5) 3 = 1 / 5" "py_round (201 / 1000) 3 = 201 / 1000"
  "py_round (- (301 / 1000)) 3 = - (301 / 1000)"
  by code_simp+

text \<open>
  Three atoms of scores 2, 1 and 1.5 with raw charges 0.1, 0.2 and -0.301, graph score 3,
  raw total -0.001, target 0 at three digits: every delta rounds to 0, and the second atom,
  the one of least score, takes the residual 0.001.
\<close>

theorem redistribution_exact_witness:
  "solved (solved_graph [(1, solved_atom 2 (1 / 10)), (2, solved_atom 1 (1 / 5)),
                         (3, solved_atom (3 / 2) (- 301 / 1000))] 3 (- 1 / 1000))
   \<and> list_ex (\<lambda>s. 0 < s)
        (scores (solved_graph [(1, solved_atom 2 (1 / 10)), (2, solved_atom 1 (1 / 5)),
                         (3, solved_atom (3 / 2) (- 301 / 1000))] 3 (- 1 / 1000)))
   \<and> num_attr (graph_attrs
        (solved_graph [(1, solved_atom 2 (1 / 10)), (2, solved_atom 1 (1 / 5)),
                         (3, solved_atom (3 / 2) (- 301 / 1000))] 3 (- 1 / 1000))) ''score''
        \<noteq> Some 0
   \<and> scores (solved_graph [(1, solved_atom 2 (1 / 10)), (2, solved_atom 1 (1 / 5)),
                         (3, solved_atom (3 / 2) (- 301 / 1000))] 3 (- 1 / 1000)) = [2, 1, 3 / 2]
   \<and> first_min_index [2, 1, 3 / 2] = 1
   \<and> rounded_charges 3 (solved_graph [(1, solved_atom 2 (1 / 10)), (2, solved_atom 1 (1 / 5)),
                         (3, solved_atom (3 / 2) (- 301 / 1000))] 3 (- 1 / 1000)) 0
        = [1 / 10, 1 / 5, - 301 / 1000]
   \<and> redist_charges (fst (add_redistributed_charges 3
        (solved_graph [(1, solved_atom 2 (1 / 10)), (2, solved_atom 1 (1 / 5)),
                         (3, solved_atom (3 / 2) (- 301 / 1000))] 3 (- 1 / 1000)) 0))
        = [Some (1 / 10), Some (201 / 1000), Some (- 301 / 1000)]
   \<and> (\<exists>graph'. add_redistributed_charges 3
        (solved_graph [(1, solved_atom 2 (1 / 10)), (2, solved_atom 1 (1 / 5)),
                         (3, solved_atom (3 / 2) (- 301 / 1000))] 3 (- 1 / 1000)) 0
          = (graph', None)
           \<and> list_all (\<lambda>c. c \<noteq> None) (redist_charges graph')
           \<and> sum_redist graph' = of_int 0
           \<and> num_attr (graph_attrs graph') ''total_charge_redist'' = Some (of_int 0)
           \<and> redist_charges graph' =
               map Some ((rounded_charges 3 (solved_graph [(1, solved_atom 2 (1 / 10)),
                            (2, solved_atom 1 (1 / 5)),
                            (3, solved_atom (3 / 2) (- 301 / 1000))] 3 (- 1 / 1000)) 0)
                 [first_min_index (scores (solved_graph [(1, solved_atom 2 (1 / 10)),
                            (2, solved_atom 1 (1 / 5)),
                            (3, solved_atom (3 / 2) (- 301 / 1000))] 3 (- 1 / 1000))) :=
                    rounded_charges 3 (solved_graph [(1, solved_atom 2 (1 / 10)),
                            (2, solved_atom 1 (1 / 5)),
                            (3, solved_atom (3 / 2) (- 301 / 1000))] 3 (- 1 / 1000)) 0
                      ! first_min_index (scores (solved_graph [(1, solved_atom 2 (1 / 10)),
                            (2, solved_atom 1 (1 / 5)),
                            (3, solved_atom (3 / 2) (- 301 / 1000))] 3 (- 1 / 1000)))
                    + (of_int 0
                       - sum_list (rounded_charges 3 (solved_graph [(1, solved_atom 2 (1 / 10)),
                            (2, solved_atom 1 (1 / 5)),
                            (3, solved_atom (3 / 2) (- 301 / 1000))] 3 (- 1 / 1000)) 0))]))"
proof -
  let ?g = "solved_graph [(1, solved_atom 2 (1 / 10)), (2, solved_atom 1 (1 / 5)),
                          (3, solved_atom (3 / 2) (- 301 / 1000))] 3 (- 1 / 1000)"
  have s: "solved ?g" by (simp add: obs_eval)
  have p: "list_ex (\<lambda>s. 0 < s) (scores ?g)" by (simp add: obs_eval)
  have t: "num_attr (graph_attrs ?g) ''score'' \<noteq> Some 0" by (simp add: obs_eval)
  have sc: "scores ?g = [2, 1, 3 / 2]" by (simp add: obs_eval)
  have f: "first_min_index [2, 1, 3 / 2] = 1" by code_simp
  have r: "rounded_charges 3 ?g 0 = [1 / 10, 1 / 5, - 301 / 1000]"
    by (simp add: rounded_charges_def delta_eval partial_charge_of_def num_attr_def
        py_round_example)
  have v: "redist_charges (fst (add_redistributed_charges 3 ?g 0))
             = [Some (1 / 10), Some (201 / 1000), Some (- 301 / 1000)]"
    by (simp add: redist_eval redist_charges_def num_attr_def py_round_example)
  have d: "(0 :: int) \<le> 3" by simp
  from redistribution_exact[OF s p t d, of 0] show ?thesis by (intro conjI s p t sc f r v)
qed

text \<open>
  C1 as stated asks only for an atom of positive score. With graph-level score 0 (the product
  of the atom scores 0 and 2, say) every proportion is 0, \<open>total_prop\<close> is 0, and the
  division in the second loop raises \<open>ZeroDivisionError\<close> before any charge is written.
\<close>

theorem redistribution_zero_graph_score_counterexample:
  "solved (solved_graph [(1, solved_atom 0 0), (2, solved_atom 2 0)] 0 0)
   \<and> list_ex (\<lambda>s. 0 < s) (scores (solved_graph [(1, solved_atom 0 0), (2, solved_atom 2 0)] 0 0))
   \<and> add_redistributed_charges 3 (solved_graph [(1, solved_atom 0 0), (2, solved_atom 2 0)] 0 0) 0
       = (solved_graph [(1, solved_atom 0 0), (2, solved_atom 2 0)] 0 0, Some ZeroDivisionError)"
  by (simp add: redist_eval obs_eval)

subsection \<open>Confidence and the size of the adjustment\<close>

lemma proportions_value:
  assumes dist: "distinct (map fst ns)" and mem: "(v, data) \<in> set ns"
  shows "(Map.empty ++ map_of (rev (map (\<lambda>(v, data). (v, f data)) ns))) v = Some (f data)"
proof -
  let ?kvs = "rev (map (\<lambda>(v, data). (v, f data)) ns)"
  have "map fst ?kvs = rev (map fst ns)" by (simp add: rev_map split_def o_def)
  then have d: "distinct (map fst ?kvs)" using dist by simp
  have "(v, f data) \<in> set ?kvs" using mem by force
  then have "map_of ?kvs v = Some (f data)" using d by simp
  then show ?thesis by simp
qed

text \<open>
  C9 (amended). In a solved graph whose graph-level score is not zero and whose nodes are
  pairwise distinct, for every two atoms A and B where A has a positive score that is lower
  than the score of B, the second loop computes an adjustment for both, and the magnitude of
  the adjustment of A is greater than or equal to that of B, whatever their raw charges.
\<close>

theorem lower_positive_score_larger_delta:
  assumes sol: "solved graph"
    and ts: "num_attr (graph_attrs graph) ''score'' \<noteq> Some 0"
    and dist: "distinct (map fst (nodes graph))"
    and A: "(a, data_a) \<in> set (nodes graph)" and B: "(b, data_b) \<in> set (nodes graph)"
    and pos: "0 < score_of data_a" and low: "score_of data_a < score_of data_b"
  shows "\<exists>delta_a delta_b.
           atom_delta rounding_digits graph total_charge a = Inr delta_a \<and>
           atom_delta rounding_digits graph total_charge b = Inr delta_b \<and>
           \<bar>delta_b\<bar> \<le> \<bar>delta_a\<bar>"
proof -
  define ns where "ns = nodes graph"
  from sol obtain tsv tc where
    g1: "get_num (graph_attrs graph) ''score'' = Inr tsv"
    and tsv: "num_attr (graph_attrs graph) ''score'' = Some tsv"
    and g2: "get_num (graph_attrs graph) ''total_charge'' = Inr tc"
    using get_num_has_num unfolding solved_def by blast
  have tsv0: "tsv \<noteq> 0" using ts tsv by simp
  have all1: "list_all (\<lambda>(v, data). has_num data ''score'') ns"
    using sol by (simp add: solved_def ns_def list_all_iff split_def)
  define props where
    "props = Map.empty ++ map_of (rev (map (\<lambda>(v, data). (v, proportion tsv (score_of data))) ns))"
  define tprop where "tprop = 0 + sum_list (map (\<lambda>(v, data). proportion tsv (score_of data)) ns)"
  define te where "te = of_int total_charge - tc"
  have l1: "proportions_loop tsv ns Map.empty 0 = Inr (props, tprop)"
    unfolding props_def tprop_def by (rule proportions_loop_ok[OF all1])
  have "list_ex (\<lambda>(v, data). 0 < score_of data) ns"
    using A pos unfolding ns_def list_ex_iff by fast
  then have "0 < sum_list (map (\<lambda>(v, data). if 0 < score_of data then 1 / score_of data else 0) ns)"
    by (rule inverse_scores_pos)
  then have tp0: "tprop \<noteq> 0" using tsv0 by (simp add: tprop_def sum_proportions)
  let ?sa = "score_of data_a" and ?sb = "score_of data_b"
  have sb: "0 < ?sb" using pos low by linarith
  have pa: "props a = Some (tsv / ?sa)"
    unfolding props_def using proportions_value[OF dist A, of "\<lambda>data. proportion tsv (score_of data)"] pos
    by (simp add: ns_def proportion_def)
  have pb: "props b = Some (tsv / ?sb)"
    unfolding props_def using proportions_value[OF dist B, of "\<lambda>data. proportion tsv (score_of data)"] sb
    by (simp add: ns_def proportion_def)
  define x where "x = (tsv / ?sa * te) / tprop"
  have da: "atom_delta rounding_digits graph total_charge a = Inr (py_round x rounding_digits)"
    unfolding atom_delta_def g1 g2
    by (simp add: ns_def[symmetric] l1 te_def[symmetric] redist_delta_def pa tp0 x_def)
  define y where "y = (tsv / ?sb * te) / tprop"
  have scale: "y = (?sa / ?sb) * x"
    using pos sb by (simp add: x_def y_def)
  have db0: "atom_delta rounding_digits graph total_charge b = Inr (py_round y rounding_digits)"
    unfolding atom_delta_def g1 g2
    by (simp add: ns_def[symmetric] l1 te_def[symmetric] redist_delta_def pb tp0 y_def)
  have db: "atom_delta rounding_digits graph total_charge b
              = Inr (py_round ((?sa / ?sb) * x) rounding_digits)"
    unfolding db0 scale ..
  have "0 \<le> ?sa / ?sb" and "?sa / ?sb \<le> 1" using pos sb low by simp_all
  then have "\<bar>py_round ((?sa / ?sb) * x) rounding_digits\<bar> \<le> \<bar>py_round x rounding_digits\<bar>"
    by (rule abs_py_round_scale)
  then show ?thesis using da db by blast
qed

lemma py_round_thirds:
  "py_round (2 / 3) 3 = 667 / 1000" "py_round (1 / 3) 3 = 333 / 1000"
  by code_simp+

text \<open>
  Two atoms of scores 0.5 and 1, graph score 1, raw total -1 and target 0 at three digits:
  the adjustments are 0.667 and 0.333.
\<close>

theorem lower_positive_score_larger_delta_witness:
  "solved (solved_graph [(1, solved_atom (1 / 2) 0), (2, solved_atom 1 0)] 1 (- 1))
   \<and> score_of (solved_atom (1 / 2) 0) = 1 / 2 \<and> score_of (solved_atom 1 0) = 1
   \<and> atom_delta 3 (solved_graph [(1, solved_atom (1 / 2) 0), (2, solved_atom 1 0)] 1 (- 1)) 0 1
        = Inr (667 / 1000)
   \<and> atom_delta 3 (solved_graph [(1, solved_atom (1 / 2) 0), (2, solved_atom 1 0)] 1 (- 1)) 0 2
        = Inr (333 / 1000)
   \<and> (\<exists>delta_a delta_b.
        atom_delta 3 (solved_graph [(1, solved_atom (1 / 2) 0), (2, solved_atom 1 0)] 1 (- 1)) 0 1
          = Inr delta_a
      \<and> atom_delta 3 (solved_graph [(1, solved_atom (1 / 2) 0), (2, solved_atom 1 0)] 1 (- 1)) 0 2
          = Inr delta_b
      \<and> \<bar>delta_b\<bar> \<le> \<bar>delta_a\<bar>)"
proof -
  let ?g = "solved_graph [(1, solved_atom (1 / 2) 0), (2, solved_atom 1 0)] 1 (- 1)"
  have s: "solved ?g" by (simp add: obs_eval)
  have t: "num_attr (graph_attrs ?g) ''score'' \<noteq> Some 0" by (simp add: obs_eval)
  have d: "distinct (map fst (nodes ?g))" by (simp add: solved_graph_def)
  have A: "(1, solved_atom (1 / 2) 0) \<in> set (nodes ?g)" by (simp add: solved_graph_def)
  have B: "(2, solved_atom 1 0) \<in> set (nodes ?g)" by (simp add: solved_graph_def)
  have sa: "score_of (solved_atom (1 / 2) 0) = 1 / 2"
    by (simp add: score_of_def num_attr_def solved_atom_def)
  have sb: "score_of (solved_atom 1 0) = 1"
    by (simp add: score_of_def num_attr_def solved_atom_def)
  have p: "0 < score_of (solved_atom (1 / 2) 0)" unfolding sa by simp
  have l: "score_of (solved_atom (1 / 2) 0) < score_of (solved_atom 1 0)" unfolding sa sb by simp
  have da: "atom_delta 3 ?g 0 1 = Inr (667 / 1000)"
    by (simp add: delta_eval py_round_thirds)
  have db: "atom_delta 3 ?g 0 2 = Inr (333 / 1000)"
    by (simp add: delta_eval py_round_thirds)
  from lower_positive_score_larger_delta[OF s t d A B p l, of 3 0]
  show ?thesis by (intro conjI s sa sb da db)
qed

text \<open>
  C9 as stated takes any lower score. An atom of score 0 has the proportion 0 by the guard
  \<open>if data['score'] > 0 else 0\<close> of the first loop: with equal raw charges -0.5, scores 0
  and 1, graph score 1, raw total -1 and target 0, the atom of lower score is adjusted by 0
  and the other by 1.
\<close>

theorem zero_score_smaller_delta_counterexample:
  "score_of (solved_atom 0 (- 1 / 2)) < score_of (solved_atom 1 (- 1 / 2))
   \<and> partial_charge_of (solved_atom 0 (- 1 / 2)) = partial_charge_of (solved_atom 1 (- 1 / 2))
   \<and> atom_delta 3 (solved_graph [(1, solved_atom 0 (- 1 / 2)), (2, solved_atom 1 (- 1 / 2))] 1 (- 1)) 0 1
        = Inr 0
   \<and> atom_delta 3 (solved_graph [(1, solved_atom 0 (- 1 / 2)), (2, solved_atom 1 (- 1 / 2))] 1 (- 1)) 0 2
        = Inr 1
   \<and> redist_charges (fst (add_redistributed_charges 3
        (solved_graph [(1, solved_atom 0 (- 1 / 2)), (2, solved_atom 1 (- 1 / 2))] 1 (- 1)) 0))
        = [Some (- 1 / 2), Some (1 / 2)]"
  by (simp add: delta_eval redist_eval score_of_def partial_charge_of_def num_attr_def
      redist_charges_def py_round_example)

subsection \<open>Atoms without confidence\<close>

lemma sum_proportions_zero:
  "list_all (\<lambda>(v, data). score_of data = 0) ns \<Longrightarrow>
     sum_list (map (\<lambda>(v, data). proportion ts (score_of data)) ns) = 0"
  by (induction ns) (auto simp: proportion_def)

text \<open>
  C3 (amended). When the graph is not empty and every atom has score zero, the
  redistribution step raises \<open>ZeroDivisionError\<close> from the division by \<open>total_prop\<close> at the
  first atom of the second loop, and leaves the graph as it was. No other failure is
  raised there: the code has no guard of its own.
\<close>

theorem zero_scores_raise_ZeroDivisionError:
  assumes sol: "solved graph" and ne: "nodes graph \<noteq> []"
    and zero: "list_all (\<lambda>s. s = 0) (scores graph)"
  shows "add_redistributed_charges rounding_digits graph total_charge
           = (graph, Some ZeroDivisionError)"
proof -
  define ns where "ns = nodes graph"
  from sol obtain tsv tc where
    g1: "get_num (graph_attrs graph) ''score'' = Inr tsv"
    and g2: "get_num (graph_attrs graph) ''total_charge'' = Inr tc"
    using get_num_has_num unfolding solved_def by blast
  have all1: "list_all (\<lambda>(v, data). has_num data ''score'') ns"
    using sol by (simp add: solved_def ns_def list_all_iff split_def)
  define props where
    "props = Map.empty ++ map_of (rev (map (\<lambda>(v, data). (v, proportion tsv (score_of data))) ns))"
  have z: "list_all (\<lambda>(v, data). score_of data = 0) ns"
    using zero by (simp add: scores_score_of ns_def list_all_iff split_def)
  have l1: "proportions_loop tsv ns Map.empty 0 = Inr (props, 0)"
    using proportions_loop_ok[OF all1, of tsv Map.empty 0]
    by (simp add: props_def sum_proportions_zero[OF z])
  obtain v data rest where ns: "ns = (v, data) # rest" using ne by (cases ns) (auto simp: ns_def)
  have "props v \<noteq> None" unfolding props_def by (rule proportions_defined[of v data]) (simp add: ns)
  then obtain p where p: "props v = Some p" by blast
  have l2: "redistribute_loop rounding_digits props te 0 0 ns st = (ns, st, Some ZeroDivisionError)"
    for te st
    by (simp add: ns redistribute_node_def redist_delta_def p)
  show ?thesis
    unfolding add_redistributed_charges_def g1 g2
    by (simp add: ns_def[symmetric] l1 l2)
qed

theorem zero_scores_witness:
  "solved (solved_graph [(1, solved_atom 0 (1 / 10)), (2, solved_atom 0 (- 1 / 10))] 0 0)
   \<and> nodes (solved_graph [(1, solved_atom 0 (1 / 10)), (2, solved_atom 0 (- 1 / 10))] 0 0) \<noteq> []
   \<and> list_all (\<lambda>s. s = 0)
        (scores (solved_graph [(1, solved_atom 0 (1 / 10)), (2, solved_atom 0 (- 1 / 10))] 0 0))
   \<and> add_redistributed_charges 3
        (solved_graph [(1, solved_atom 0 (1 / 10)), (2, solved_atom 0 (- 1 / 10))] 0 0) 0
        = (solved_graph [(1, solved_atom 0 (1 / 10)), (2, solved_atom 0 (- 1 / 10))] 0 0,
           Some ZeroDivisionError)"
proof -
  let ?g = "solved_graph [(1, solved_atom 0 (1 / 10)), (2, solved_atom 0 (- 1 / 10))] 0 0"
  have s: "solved ?g" by (simp add: obs_eval)
  have n: "nodes ?g \<noteq> []" by (simp add: solved_graph_def)
  have z: "list_all (\<lambda>s. s = 0) (scores ?g)" by (simp add: obs_eval)
  show ?thesis by (intro conjI s n z zero_scores_raise_ZeroDivisionError[OF s n z])
qed

text \<open>
  C3 as stated asks for an explicit failure in place of the arithmetic fault. With one atom
  of score zero the fault itself is what the step raises.
\<close>

theorem zero_score_atom_counterexample:
  "add_redistributed_charges 3 (solved_graph [(1, solved_atom 0 0)] 0 0) 0
     = (solved_graph [(1, solved_atom 0 0)] 0 0, Some ZeroDivisionError)"
  by (simp add: redist_eval)

subsection \<open>The attributes the step leaves alone\<close>

lemma redistribute_node_frame:
  "erase_node (v, fst (redistribute_node d props te tp i v data st)) = erase_node (v, data)"
  by (simp add: erase_node_def redistribute_node_def Let_def split: sum.splits)

lemma redistribute_loop_frame:
  "map erase_node (fst (redistribute_loop d props te tp i ns st)) = map erase_node ns"
proof (induction ns arbitrary: i st)
  case Nil
  show ?case by simp
next
  case (Cons n ns)
  obtain v data where n: "n = (v, data)" by (cases n)
  obtain data' st' err where rn: "redistribute_node d props te tp i v data st = (data', st', err)"
    by (cases "redistribute_node d props te tp i v data st")
  have fr: "erase_node (v, data') = erase_node (v, data)"
    using redistribute_node_frame[of v d props te tp i data st] by (simp add: rn)
  show ?case
  proof (cases err)
    case None
    obtain rest' st'' err' where rl:
      "redistribute_loop d props te tp (Suc i) ns st' = (rest', st'', err')"
      by (cases "redistribute_loop d props te tp (Suc i) ns st'")
    have "map erase_node rest' = map erase_node ns"
      using Cons.IH[of "Suc i" st'] by (simp add: rl)
    then show ?thesis unfolding n by (simp add: rn None rl fr)
  next
    case (Some e)
    then show ?thesis unfolding n by (simp add: rn fr)
  qed
qed

lemma update_frame:
  "map erase_node (xs[i := (fst (xs ! i), (snd (xs ! i))(''partial_charge_redist'' \<mapsto> x))])
     = map erase_node xs"
proof (cases "i < length xs")
  case True
  then show ?thesis
    by (intro nth_equalityI) (auto simp: nth_list_update erase_node_def)
next
  case False
  then show ?thesis by (simp add: list_update_beyond)
qed

lemma absorb_residual_frame:
  "erase_redist (fst (absorb_residual d graph total_charge ns st)) = erase_redist (graph\<lparr> nodes := ns \<rparr>)"
  by (simp add: absorb_residual_def erase_redist_def Let_def update_frame
      split: option.splits sum.splits)

text \<open>
  C10. The redistribution step writes only \<open>partial_charge_redist\<close> on the atoms and
  \<open>total_charge_redist\<close> on the graph: with these two attributes erased, the graph after
  the step is the graph before it (same atoms in the same order, every other attribute of
  every atom, among them \<open>partial_charge\<close> and \<open>score\<close>, the edges and every other graph
  attribute), whether the step ends normally or by an exception.
\<close>

theorem redistribution_frame:
  "erase_redist (fst (add_redistributed_charges rounding_digits graph total_charge))
     = erase_redist graph"
proof -
  have loop: "erase_redist (graph\<lparr> nodes := fst (redistribute_loop d props te tp 0 (nodes graph) st) \<rparr>)
                = erase_redist graph" for d props te tp st
    by (simp add: erase_redist_def redistribute_loop_frame)
  show ?thesis
  proof (cases "get_num (graph_attrs graph) ''score''")
    case (Inl e)
    then show ?thesis by (simp add: add_redistributed_charges_def)
  next
    case g1: (Inr total_score)
    show ?thesis
    proof (cases "get_num (graph_attrs graph) ''total_charge''")
      case (Inl e)
      then show ?thesis by (simp add: add_redistributed_charges_def g1)
    next
      case g2: (Inr tc)
      show ?thesis
      proof (cases "proportions_loop total_score (nodes graph) Map.empty 0")
        case (Inl e)
        then show ?thesis by (simp add: add_redistributed_charges_def g1 g2)
      next
        case (Inr pr)
        obtain props tp where pr: "pr = (props, tp)" by (cases pr)
        let ?st0 = "\<lparr> total_charge_redist = 0, min_score = None, min_atom_data = None \<rparr>"
        obtain ns' st' err where rl:
          "redistribute_loop rounding_digits props (of_int total_charge - tc) tp 0 (nodes graph) ?st0
             = (ns', st', err)"
          by (cases "redistribute_loop rounding_digits props (of_int total_charge - tc) tp 0 (nodes graph) ?st0")
        have fr: "erase_redist (graph\<lparr> nodes := ns' \<rparr>) = erase_redist graph"
          using loop[of rounding_digits props "of_int total_charge - tc" tp ?st0] by (simp add: rl)
        show ?thesis
        proof (cases err)
          case None
          then show ?thesis
            using absorb_residual_frame[of rounding_digits graph total_charge ns' st'] fr
            by (simp add: add_redistributed_charges_def g1 g2 Inr pr rl)
        next
          case (Some e)
          then show ?thesis using fr by (simp add: add_redistributed_charges_def g1 g2 Inr pr rl)
        qed
      qed
    qed
  qed
qed

theorem redistribution_frame_witness:
  "erase_redist (fst (add_redistributed_charges 3
      (solved_graph [(1, solved_atom 1 (1 / 10)), (2, solved_atom 1 (- 101 / 1000))] 2 (- 1 / 1000)) 0))
     = erase_redist
         (solved_graph [(1, solved_atom 1 (1 / 10)), (2, solved_atom 1 (- 101 / 1000))] 2 (- 1 / 1000))"
  by (rule redistribution_frame)

end
